theory Spec2Isabelle
  imports Complex_Main "HOL-Library.Word" "HOL-Library.Sublist"
begin

section \<open>Shared types: time, errors, responses\<close>

text \<open>
  A \<open>time.Time\<close> is the number of nanoseconds since the Unix epoch. Handlers return
  either an error (rendered by \<open>zhttp.Wrap\<close>) or the response they wrote.
\<close>

type_synonym time = int

datatype error = Guru nat string | Error string | ErrNoRows | EOF

text \<open>
  \<open>goatcounter.Export\<close>, with the fields the Swagger definition in the source lists.
  A nullable column is an option.
\<close>

record Export =
  ID :: int
  SiteID :: int
  StartFromHitID :: int
  LastHitID :: "int option"
  ExportPath :: string
  ExportCreatedAt :: time
  FinishedAt :: "time option"
  NumRows :: "int option"
  ExportSize :: "string option"
  Hash :: "string option"
  ExportError :: "string option"

datatype body =
    ErrorBody string
  | ErrorsBody "nat \<rightharpoonup> string"
  | StatusBody string
  | ExportBody Export

datatype response =
    JSON nat body
  | SeeOther string string
  | Stream "(string \<times> string) list" string

section \<open>POST /api/v0/count\<close>

record apiCountRequestHit =
  h_path :: string
  h_title :: string
  h_event :: bool
  h_ref :: string
  h_size :: "int list"
  h_query :: string
  h_bot :: int
  h_browser :: string
  h_location :: string
  h_ip :: string
  h_created_at :: time
  h_session :: string

record apiCountRequest =
  no_sessions :: bool
  hits :: "apiCountRequestHit list"

text \<open>The fields of \<open>goatcounter.Hit\<close> that \<open>api.count\<close> fills in.\<close>

record Hit =
  Path :: string
  Title :: string
  Ref :: string
  Event :: bool
  Size :: "int list"
  Query :: string
  Bot :: int
  CreatedAt :: time
  Browser :: string
  Location :: string
  RemoteAddr :: string
  UserSessionID :: string

text \<open>
  Modelled from the spec: \<open>Memstore.Append\<close> is outside the sources. The buffer is the
  sequence of records handed to it, in order (section 4.2: an in-memory mutation that
  returns at once).
\<close>

definition Memstore_Append :: "Hit \<Rightarrow> Hit list \<Rightarrow> Hit list" where
  "Memstore_Append hit ms = ms @ [hit]"

definition no_session_msg :: string where
  "no_session_msg = ''no session and browser and/or ip are blank: not counting unique visit''"

text \<open>Lines 353-355: the location is looked up from the IP when only the IP is given.\<close>

definition locate :: "(string \<Rightarrow> string) \<Rightarrow> apiCountRequestHit \<Rightarrow> apiCountRequestHit" where
  "locate geo a =
     (if h_location a = [] \<and> h_ip a \<noteq> [] then a\<lparr>h_location := geo (h_ip a)\<rparr> else a)"

text \<open>Lines 357-369: the \<open>goatcounter.Hit\<close> literal.\<close>

definition new_hit :: "apiCountRequestHit \<Rightarrow> Hit" where
  "new_hit a =
     \<lparr>Path = h_path a, Title = h_title a, Ref = h_ref a, Event = h_event a,
      Size = h_size a, Query = h_query a, Bot = h_bot a,
      CreatedAt = h_created_at a, Browser = h_browser a,
      Location = h_location a, RemoteAddr = h_ip a, UserSessionID = []\<rparr>"

text \<open>
  One iteration of the loop of \<open>api.count\<close> (lines 352-388) for the hit \<open>a0\<close> at index
  \<open>i\<close>. The collaborators outside the sources are parameters: \<open>geo\<close>, \<open>Defaults\<close>
  (\<open>hit.Defaults\<close>) and \<open>Validate\<close> (\<open>hit.Validate\<close>, \<open>None\<close> when it returns nil).
  The state is the error map and the Memstore buffer. The \<open>switch\<close> of lines 371-378
  sets \<open>hit.UserSessionID\<close> in its first case and \<open>errs[i]\<close> in its third; neither case
  leaves the iteration.
\<close>

definition count_hit ::
  "(string \<Rightarrow> string) \<Rightarrow> (Hit \<Rightarrow> Hit) \<Rightarrow> (Hit \<Rightarrow> string option) \<Rightarrow> bool \<Rightarrow>
   nat \<Rightarrow> apiCountRequestHit \<Rightarrow> (nat \<rightharpoonup> string) \<times> Hit list \<Rightarrow> (nat \<rightharpoonup> string) \<times> Hit list" where
  "count_hit geo Defaults Validate NoSessions i a0 st =
    (let errs = fst st; ms = snd st;
         a = locate geo a0;
         hit = new_hit a;
         hit1 = (if h_session a \<noteq> [] then hit\<lparr>UserSessionID := h_session a\<rparr> else hit);
         errs1 = (if h_session a \<noteq> [] then errs
                  else if Browser hit \<noteq> [] \<and> h_ip a \<noteq> [] then errs
                  else if \<not> NoSessions then errs(i \<mapsto> no_session_msg)
                  else errs);
         hit2 = Defaults hit1
     in case Validate hit2 of
          Some e \<Rightarrow> (errs1(i \<mapsto> e), ms)
        | None \<Rightarrow> (errs1, Memstore_Append hit2 ms))"

fun count_loop ::
  "(string \<Rightarrow> string) \<Rightarrow> (Hit \<Rightarrow> Hit) \<Rightarrow> (Hit \<Rightarrow> string option) \<Rightarrow> bool \<Rightarrow>
   nat \<Rightarrow> apiCountRequestHit list \<Rightarrow> (nat \<rightharpoonup> string) \<times> Hit list \<Rightarrow> (nat \<rightharpoonup> string) \<times> Hit list" where
  "count_loop geo Defaults Validate NoSessions i [] st = st"
| "count_loop geo Defaults Validate NoSessions i (a # as) st =
     count_loop geo Defaults Validate NoSessions (Suc i) as
       (count_hit geo Defaults Validate NoSessions i a st)"

text \<open>
  \<open>api.count\<close>. \<open>authres\<close> is what \<open>h.auth\<close> returned for the request and \<open>decoded\<close> what
  \<open>zhttp.Decode\<close> made of the body; \<open>ms\<close> is the Memstore buffer before the request.
\<close>

definition count ::
  "(string \<Rightarrow> string) \<Rightarrow> (Hit \<Rightarrow> Hit) \<Rightarrow> (Hit \<Rightarrow> string option) \<Rightarrow>
   error option \<Rightarrow> error + apiCountRequest \<Rightarrow> Hit list \<Rightarrow> (error + response) \<times> Hit list" where
  "count geo Defaults Validate authres decoded ms =
    (case authres of
       Some err \<Rightarrow> (Inl err, ms)
     | None \<Rightarrow>
        (case decoded of
           Inl err \<Rightarrow> (Inl err, ms)
         | Inr args \<Rightarrow>
            if length (hits args) = 0 then (Inr (JSON 400 (ErrorBody ''no hits'')), ms)
            else if length (hits args) > 100
            then (Inr (JSON 400
                   (ErrorBody ''maximum amount of pageviews in one batch is 100'')), ms)
            else
              (let st = count_loop geo Defaults Validate (no_sessions args) 0 (hits args)
                          (Map.empty, ms)
               in if dom (fst st) \<noteq> {} then (Inr (JSON 400 (ErrorsBody (fst st))), snd st)
                  else (Inr (JSON 202 (StatusBody ''ok'')), snd st))))"

subsection \<open>What the loop computes, hit by hit\<close>

text \<open>
  The record handed to \<open>hit.Validate\<close> for a request hit: lines 353-380 without the
  error map.
\<close>

definition build_hit :: "(string \<Rightarrow> string) \<Rightarrow> (Hit \<Rightarrow> Hit) \<Rightarrow> apiCountRequestHit \<Rightarrow> Hit" where
  "build_hit geo Defaults a0 =
    (let a = locate geo a0; hit = new_hit a
     in Defaults (if h_session a \<noteq> [] then hit\<lparr>UserSessionID := h_session a\<rparr> else hit))"

text \<open>The third case of the \<open>switch\<close>: no session can be derived and sessions are wanted.\<close>

definition session_err :: "bool \<Rightarrow> apiCountRequestHit \<Rightarrow> bool" where
  "session_err NoSessions a =
     (h_session a = [] \<and> (h_browser a = [] \<or> h_ip a = []) \<and> \<not> NoSessions)"

text \<open>
  The message reported for one hit, from that hit alone: the error of \<open>hit.Validate\<close>
  overwrites the session message, as line 383 overwrites line 377.
\<close>

definition hit_error ::
  "(string \<Rightarrow> string) \<Rightarrow> (Hit \<Rightarrow> Hit) \<Rightarrow> (Hit \<Rightarrow> string option) \<Rightarrow> bool \<Rightarrow>
   apiCountRequestHit \<Rightarrow> string option" where
  "hit_error geo Defaults Validate NoSessions a =
     (case Validate (build_hit geo Defaults a) of
        Some e \<Rightarrow> Some e
      | None \<Rightarrow> if session_err NoSessions a then Some no_session_msg else None)"

text \<open>
  A hit fails validation when its session cannot be resolved (a per-record validation
  error in section 4.1 of the specification) or when \<open>hit.Validate\<close> refuses it.
\<close>

definition failed_validation ::
  "(string \<Rightarrow> string) \<Rightarrow> (Hit \<Rightarrow> Hit) \<Rightarrow> (Hit \<Rightarrow> string option) \<Rightarrow> bool \<Rightarrow>
   apiCountRequestHit \<Rightarrow> bool" where
  "failed_validation geo Defaults Validate NoSessions a =
     (session_err NoSessions a \<or> Validate (build_hit geo Defaults a) \<noteq> None)"

definition count_errors ::
  "(string \<Rightarrow> string) \<Rightarrow> (Hit \<Rightarrow> Hit) \<Rightarrow> (Hit \<Rightarrow> string option) \<Rightarrow>
   apiCountRequest \<Rightarrow> (nat \<rightharpoonup> string)" where
  "count_errors geo Defaults Validate args i =
     (if i < length (hits args)
      then hit_error geo Defaults Validate (no_sessions args) (hits args ! i)
      else None)"

definition accepted ::
  "(string \<Rightarrow> string) \<Rightarrow> (Hit \<Rightarrow> Hit) \<Rightarrow> (Hit \<Rightarrow> string option) \<Rightarrow>
   apiCountRequestHit list \<Rightarrow> Hit list" where
  "accepted geo Defaults Validate as =
     filter (\<lambda>h. Validate h = None) (map (build_hit geo Defaults) as)"

subsection \<open>Collaborators and inputs for the worked examples\<close>

definition zero_time :: time where
  "zero_time = - 62135596800000000000"

text \<open>2020-06-18 14:42:00 UTC, the server time of the scenario in \<open>TestAPICount\<close>.\<close>

definition server_now :: time where
  "server_now = 1592491320000000000"

text \<open>
  Modelled from the spec: \<open>hit.Validate\<close> is outside the sources. Section 3: the path is
  not empty and the creation timestamp is not in the future relative to server time.
\<close>

definition Validate_spec :: "time \<Rightarrow> Hit \<Rightarrow> string option" where
  "Validate_spec now hit =
     (if Path hit = [] then Some ''path: must be set''
      else if now < CreatedAt hit then Some ''created_at: in the future''
      else None)"

text \<open>
  Modelled from the spec: \<open>hit.Defaults\<close> is outside the sources. Section 8, scenario 7:
  a hit sent without \<open>created_at\<close> is stored with the server time.
\<close>

definition Defaults_spec :: "time \<Rightarrow> Hit \<Rightarrow> Hit" where
  "Defaults_spec now hit = (if CreatedAt hit = zero_time then hit\<lparr>CreatedAt := now\<rparr> else hit)"

definition no_geo :: "string \<Rightarrow> string" where
  "no_geo ip = []"

text \<open>The request hit \<open>{Path: p}\<close> of the Go tests: every other field has its zero value.\<close>

definition path_only :: "string \<Rightarrow> apiCountRequestHit" where
  "path_only p =
     \<lparr>h_path = p, h_title = [], h_event = False, h_ref = [], h_size = [], h_query = [],
      h_bot = 0, h_browser = [], h_location = [], h_ip = [], h_created_at = zero_time,
      h_session = []\<rparr>"

text \<open>A batch whose second hit has no path.\<close>

definition three_hits :: apiCountRequest where
  "three_hits = \<lparr>no_sessions = True, hits = [path_only ''/foo'', path_only [], path_only ''/bar'']\<rparr>"

section \<open>The replay importer\<close>

subsection \<open>Synthetic IP addresses\<close>

text \<open>Go's \<open>%\<close> on signed integers truncates towards zero.\<close>

definition go_rem :: "int \<Rightarrow> int \<Rightarrow> int" where
  "go_rem a b = sgn a * (\<bar>a\<bar> mod \<bar>b\<bar>)"

text \<open>The verb \<open>%d\<close> of \<open>fmt.Sprintf\<close>: decimal digits, with a sign for a negative number.\<close>

definition digit_char :: "nat \<Rightarrow> char" where
  "digit_char d = ''0123456789'' ! d"

function digits :: "nat \<Rightarrow> string" where
  "digits n = (if n < 10 then [digit_char n] else digits (n div 10) @ [digit_char (n mod 10)])"
  by pat_completeness auto
termination
  by (relation "measure id") auto

declare digits.simps [simp del]

definition itoa :: "int \<Rightarrow> string" where
  "itoa n = (if n < 0 then CHR ''-'' # digits (nat (- n)) else digits (nat n))"

text \<open>
  Line 660. \<open>nextIP\<close> is an \<open>int32\<close>: \<open>sint\<close> reads the word as a signed number,
  \<open>>>\<close> is the arithmetic shift (division by a power of two, rounded down) and binds
  as tightly as \<open>%\<close>, so \<open>nextIP>>16%256\<close> is \<open>(nextIP>>16)%256\<close>.
\<close>

definition format_ip :: "32 word \<Rightarrow> string" where
  "format_ip w =
     itoa (sint w div 2 ^ 24) @ ''.'' @ itoa (go_rem (sint w div 2 ^ 16) 256) @ ''.'' @
     itoa (go_rem (sint w div 2 ^ 8) 256) @ ''.'' @ itoa (go_rem (sint w) 256)"

text \<open>
  The dotted quad of a number, as the specification words it (one address per session,
  assigned in increasing order from 0.0.0.0): the four bytes of \<open>k\<close>, most significant
  first, in decimal.
\<close>

definition dotted_quad :: "nat \<Rightarrow> string" where
  "dotted_quad k =
     digits (k div 2 ^ 24) @ ''.'' @ digits (k div 2 ^ 16 mod 256) @ ''.'' @
     digits (k div 2 ^ 8 mod 256) @ ''.'' @ digits (k mod 256)"

text \<open>The value of a decimal numeral, to read \<open>digits\<close> back.\<close>

definition digit_val :: "char \<Rightarrow> nat" where
  "digit_val c = of_char c - 48"

definition decimal_val :: "string \<Rightarrow> nat" where
  "decimal_val cs = foldl (\<lambda>a c. 10 * a + digit_val c) 0 cs"

subsection \<open>Reading the rows\<close>

text \<open>
  The request \<open>importReplay\<close> builds for one row (lines 642-656 and 664): the query
  values in the order they are set, the two headers, and the remote address.
\<close>

record Request =
  req_site :: string
  req_query :: "(string \<times> string) list"
  req_UserAgent :: string
  req_ContentType :: string
  req_RemoteAddr :: string

text \<open>
  The variables the row loop updates (lines 619-621 and \<open>start\<close>). A missing key of
  \<open>requests\<close> reads as the empty slice.
\<close>

record rows_state =
  nextIP :: "32 word"
  ips :: "string \<rightharpoonup> string"
  requests :: "int \<Rightarrow> Request list"
  start :: time

definition second :: int where
  "second = 1000000000"

definition Unix :: "time \<Rightarrow> int" where
  "Unix t = t div second"

text \<open>The columns of a row that the loop reads (lines 634-638).\<close>

definition row_session :: "string list \<Rightarrow> string" where
  "row_session row = row ! 4"

definition row_created :: "(string \<Rightarrow> time option) \<Rightarrow> string list \<Rightarrow> time" where
  "row_created parse row = (case parse (row ! 11) of Some t \<Rightarrow> t | None \<Rightarrow> zero_time)"

definition row_request :: "string \<Rightarrow> string list \<Rightarrow> string \<Rightarrow> Request" where
  "row_request url row ip =
     \<lparr>req_site = url,
      req_query = [(''p'', row ! 0), (''t'', row ! 1), (''e'', row ! 2), (''b'', row ! 3),
                   (''r'', row ! 6), (''s'', row ! 9)],
      req_UserAgent = row ! 8, req_ContentType = ''application/json'',
      req_RemoteAddr = ip\<rparr>"

text \<open>
  Lines 658-663: the address of a session is looked up, and assigned from \<open>nextIP\<close>
  when the session is new. The result is the address and the updated map and counter.
\<close>

definition assign_ip ::
  "string \<Rightarrow> (string \<rightharpoonup> string) \<times> 32 word \<Rightarrow> string \<times> (string \<rightharpoonup> string) \<times> 32 word" where
  "assign_ip session st =
     (case fst st session of
        Some ip \<Rightarrow> (ip, fst st, snd st)
      | None \<Rightarrow> (format_ip (snd st), (fst st)(session \<mapsto> format_ip (snd st)), snd st + 1))"

text \<open>
  One row of 12 fields (lines 634-666). \<open>parse\<close> is \<open>time.Parse(time.RFC3339, _)\<close>,
  whose error is dropped: a timestamp that does not parse is the zero time.
\<close>

definition read_row ::
  "(string \<Rightarrow> time option) \<Rightarrow> string \<Rightarrow> string list \<Rightarrow> rows_state \<Rightarrow> rows_state" where
  "read_row parse url row st =
     (let created = row_created parse row;
          start1 = (if start st = zero_time then created else start st);
          a = assign_ip (row_session row) (ips st, nextIP st);
          r = row_request url row (fst a)
      in \<lparr>nextIP = snd (snd a), ips = fst (snd a),
          requests = (requests st)(Unix created := requests st (Unix created) @ [r]),
          start = start1\<rparr>)"

text \<open>
  The row loop (lines 622-667) over the results of \<open>c.Read()\<close>: a record or an error,
  and \<open>io.EOF\<close> when the input is exhausted. \<open>Inl\<close> is the error \<open>importReplay\<close> returns.
\<close>

fun read_rows ::
  "(string \<Rightarrow> time option) \<Rightarrow> string \<Rightarrow> (error + string list) list \<Rightarrow> rows_state \<Rightarrow>
   error + rows_state" where
  "read_rows parse url [] st = Inr st"
| "read_rows parse url (Inl err # rest) st = (if err = EOF then Inr st else Inl err)"
| "read_rows parse url (Inr row # rest) st =
     (if length row \<noteq> 12
      then Inl (Error (''wrong number of fields: '' @ itoa (int (length row)) @ '' (want: 12)''))
      else read_rows parse url rest (read_row parse url row st))"

text \<open>The state after a list of rows of 12 fields each.\<close>

definition run_rows ::
  "(string \<Rightarrow> time option) \<Rightarrow> string \<Rightarrow> string list list \<Rightarrow> rows_state \<Rightarrow> rows_state" where
  "run_rows parse url rows st = foldl (\<lambda>s row. read_row parse url row s) st rows"

definition rows_init :: "time \<Rightarrow> rows_state" where
  "rows_init start0 = \<lparr>nextIP = 0, ips = Map.empty, requests = (\<lambda>t. []), start = start0\<rparr>"

text \<open>The sessions of a list in the order in which they are first seen.\<close>

definition first_seen :: "'a list \<Rightarrow> 'a list" where
  "first_seen xs = rev (remdups (rev xs))"

subsection \<open>The version check\<close>

text \<open>What \<open>importReplay\<close> does: it returns a status and an error, or it panics.\<close>

datatype outcome = Returned int "error option" | Panicked string

text \<open>
  Lines 613-617; \<open>None\<close> when the header passes. \<open>ExportVersion\<close> is
  \<open>goatcounter.ExportVersion\<close>, a constant outside the sources. The arguments of
  \<open>errors.Errorf\<close> are evaluated before the error is built: \<open>header[0]\<close> panics on an
  empty record and \<open>header[0][:1]\<close> panics on an empty first field.
\<close>

definition check_version :: "string \<Rightarrow> string list \<Rightarrow> outcome option" where
  "check_version ExportVersion header =
     (if length header = 0 \<or> \<not> prefix ExportVersion (header ! 0)
      then (if length header = 0
            then Some (Panicked ''index out of range [0] with length 0'')
            else if length (header ! 0) < 1
            then Some (Panicked ''slice bounds out of range [:1] with length 0'')
            else Some (Returned 1 (Some (Error
                   (''wrong version of CSV database: '' @ take 1 (header ! 0) @
                    '' (expected: '' @ ExportVersion @ '')'')))))
      else None)"

subsection \<open>The replay loop\<close>

text \<open>
  The loop of lines 680-705 runs on two clocks: the virtual clock \<open>now\<close> and the wall
  clock read by \<open>time.Now()\<close>. \<open>fired\<close> logs the batch handed to the goroutine at each
  tick with the virtual time of the tick, \<open>slept\<close> the durations passed to
  \<open>time.Sleep\<close>, \<open>iter\<close> counts the sleeps.
\<close>

record replay_state =
  now :: time
  wall :: time
  pending :: "int \<Rightarrow> Request list"
  fired :: "(time \<times> Request list) list"
  slept :: "int list"
  iter :: nat

text \<open>Lines 683-699: take the batch of the current second, fire it, advance the clock.\<close>

definition tick :: "replay_state \<Rightarrow> replay_state" where
  "tick st =
     st\<lparr>pending := (pending st)(Unix (now st) := []),
        fired := fired st @ [(now st, pending st (Unix (now st)))],
        now := now st + second\<rparr>"

text \<open>Line 700: \<open>now.After(time.Now())\<close>.\<close>

definition caught_up :: "replay_state \<Rightarrow> bool" where
  "caught_up st = (wall st < now st)"

text \<open>
  Line 704. \<open>time.Sleep(d)\<close> pauses for at least \<open>d\<close>: the wall clock advances by the
  duration asked for and by \<open>extra k\<close> more nanoseconds in iteration \<open>k\<close>, which stands
  for everything else that takes time.
\<close>

definition pause :: "(nat \<Rightarrow> nat) \<Rightarrow> int \<Rightarrow> replay_state \<Rightarrow> replay_state" where
  "pause extra d st =
     st\<lparr>wall := wall st + d + int (extra (iter st)),
        slept := slept st @ [d],
        iter := Suc (iter st)\<rparr>"

partial_function (option) replay_loop ::
  "(nat \<Rightarrow> nat) \<Rightarrow> int \<Rightarrow> replay_state \<Rightarrow> replay_state option" where
  "replay_loop extra d st =
     (if caught_up (tick st) then Some (tick st)
      else replay_loop extra d (pause extra d (tick st)))"

text \<open>
  Lines 675-678. The speed is a \<open>float64\<close>; it is modelled as a real number, the
  division as exact, and the conversion to \<open>time.Duration\<close> as rounding down.
\<close>

definition sleep_of :: "real \<Rightarrow> int" where
  "sleep_of speed = (if 1 < speed then \<lfloor>1000000000 / speed\<rfloor> else 1 * second)"

definition replay_init :: "time \<Rightarrow> rows_state \<Rightarrow> replay_state" where
  "replay_init wall0 rs =
     \<lparr>now = start rs, wall = wall0, pending = requests rs, fired = [], slept = [], iter = 0\<rparr>"

text \<open>
  \<open>importReplay\<close>. \<open>deleteAll\<close> is the result of \<open>site.DeleteAll\<close>, \<open>csv\<close> the results of
  the successive \<open>c.Read()\<close> calls, \<open>wall0\<close> the wall clock when the replay loop starts.
  The result is \<open>None\<close> when the function never returns; otherwise the outcome and the
  batches that were fired.
\<close>

definition importReplay ::
  "string \<Rightarrow> (string \<Rightarrow> time option) \<Rightarrow> string \<Rightarrow> (nat \<Rightarrow> nat) \<Rightarrow> time \<Rightarrow>
   error option \<Rightarrow> (error + string list) list \<Rightarrow> real \<Rightarrow> time \<Rightarrow>
   (outcome \<times> (time \<times> Request list) list) option" where
  "importReplay ExportVersion parse url extra wall0 deleteAll csv speed start0 =
     (case deleteAll of
        Some err \<Rightarrow> Some (Returned 1 (Some err), [])
      | None \<Rightarrow>
         (case csv of
            [] \<Rightarrow> Some (Returned 1 (Some EOF), [])
          | Inl err # rest \<Rightarrow> Some (Returned 1 (Some err), [])
          | Inr header # rest \<Rightarrow>
             (case check_version ExportVersion header of
                Some out \<Rightarrow> Some (out, [])
              | None \<Rightarrow>
                 (case read_rows parse url rest (rows_init start0) of
                    Inl err \<Rightarrow> Some (Returned 1 (Some err), [])
                  | Inr rs \<Rightarrow>
                     (case replay_loop extra (sleep_of speed) (replay_init wall0 rs) of
                        None \<Rightarrow> None
                      | Some fin \<Rightarrow> Some (Returned 0 None, fired fin))))))"

subsection \<open>Inputs for the worked examples of the replay\<close>

text \<open>2020-01-18 14:42:00 UTC, given as \<open>-replay-start\<close>.\<close>

definition replay_start :: time where
  "replay_start = 1579358520000000000"

text \<open>A row of an export: the twelve columns of section 6 of the specification.\<close>

definition export_row :: "string \<Rightarrow> string list" where
  "export_row session =
     [''/foo'', ''Foo'', ''false'', ''0'', session, ''true'', '''', '''', ''Mozilla/5.0'',
      ''1920,1080,1'', ''NL'', ''2020-01-18T14:42:00Z'']"

text \<open>A clock on which nothing but sleeping takes time.\<close>

definition no_extra :: "nat \<Rightarrow> nat" where
  "no_extra k = 0"

text \<open>A replay that starts one and a half seconds behind the wall clock.\<close>

definition behind_by_1500ms :: replay_state where
  "behind_by_1500ms =
     \<lparr>now = 0, wall = 1500000000, pending = (\<lambda>t. []), fired = [], slept = [], iter = 0\<rparr>"

subsection \<open>Inputs for the worked examples of the row loop\<close>

text \<open>
  The address a run gave to a session: \<open>None\<close> when the rows could not be read or the
  session does not occur.
\<close>

definition final_ip ::
  "(string \<Rightarrow> time option) \<Rightarrow> string \<Rightarrow> (error + string list) list \<Rightarrow> time \<Rightarrow> string \<Rightarrow>
   string option" where
  "final_ip parse url csv start0 session =
     (case read_rows parse url csv (rows_init start0) of
        Inl err \<Rightarrow> None
      | Inr st \<Rightarrow> ips st session)"

text \<open>An export of \<open>n\<close> rows in which row \<open>k\<close> belongs to the session numbered \<open>k\<close>.\<close>

definition numbered_row :: "nat \<Rightarrow> string list" where
  "numbered_row k = export_row (digits k)"

definition numbered_rows :: "nat \<Rightarrow> string list list" where
  "numbered_rows n = map numbered_row [0..<n]"

definition no_parse :: "string \<Rightarrow> time option" where
  "no_parse s = None"

definition example_site :: string where
  "example_site = ''https://stats.example.com''"

text \<open>Three rows of two sessions.\<close>

definition three_rows :: "string list list" where
  "three_rows = [export_row ''a'', export_row ''b'', export_row ''a'']"

section \<open>The export API\<close>

subsection \<open>The state of an export\<close>

text \<open>
  Modelled from the spec: the state of an ExportJob (section 3). \<open>goatcounter.Export\<close>
  has no state field: an export is done when its hash and size are populated, failed
  when its error is, and non-terminal (pending or running) otherwise.
\<close>

definition export_failed :: "Export \<Rightarrow> bool" where
  "export_failed e = (ExportError e \<noteq> None)"

definition export_done :: "Export \<Rightarrow> bool" where
  "export_done e = (Hash e \<noteq> None \<and> ExportSize e \<noteq> None \<and> ExportError e = None)"

definition unfinished :: "Export \<Rightarrow> bool" where
  "unfinished e = (\<not> (export_done e \<or> export_failed e))"

subsection \<open>GET /api/v0/export/{id}/download\<close>

text \<open>What \<open>os.Open\<close> finds at a path: the bytes of the file, no file, or another error.\<close>

datatype open_result = Opened string | NotExist | OpenError error

text \<open>\<open>filepath.Base\<close> for the separator \<open>/\<close>: the last element of the path.\<close>

definition Base :: "string \<Rightarrow> string" where
  "Base path =
     (if path = [] then ''.''
      else
        (let p = rev (dropWhile (\<lambda>c. c = CHR ''/'') (rev path));
             elem = rev (takeWhile (\<lambda>c. c \<noteq> CHR ''/'') (rev p))
         in if elem = [] then ''/'' else elem))"

text \<open>
  \<open>api.exportDownload\<close>. The collaborators outside the sources are parameters:
  \<open>Integer\<close> (the validator's \<open>v.Integer\<close> on the URL parameter, with the validator as
  the error), \<open>ByID\<close> (\<open>export.ByID\<close>), \<open>os_Open\<close> and \<open>SetContentDisposition\<close> (the
  header value for a disposition type and a file name). A \<open>SeeOther\<close> response holds the
  flash message and the location.
\<close>

definition exportDownload ::
  "(string \<Rightarrow> error + int) \<Rightarrow> (int \<Rightarrow> error + Export) \<Rightarrow> (string \<Rightarrow> open_result) \<Rightarrow>
   (string \<Rightarrow> string \<Rightarrow> error + string) \<Rightarrow> error option \<Rightarrow> string \<Rightarrow> error + response" where
  "exportDownload Integer ByID os_Open SetContentDisposition authres idParam =
    (case authres of
       Some err \<Rightarrow> Inl err
     | None \<Rightarrow>
        (case Integer idParam of
           Inl err \<Rightarrow> Inl err
         | Inr i \<Rightarrow>
            (case ByID i of
               Inl err \<Rightarrow> Inl err
             | Inr e \<Rightarrow>
                (case os_Open (ExportPath e) of
                   NotExist \<Rightarrow>
                     Inr (SeeOther ''It looks like there is no export yet.''
                            ''/settings#tab-export'')
                 | OpenError err \<Rightarrow> Inl err
                 | Opened content \<Rightarrow>
                    (case SetContentDisposition ''attachment'' (Base (ExportPath e)) of
                       Inl err \<Rightarrow> Inl err
                     | Inr disposition \<Rightarrow>
                        Inr (Stream [(''Content-Disposition'', disposition),
                                     (''Content-Type'', ''application/gzip'')] content))))))"

subsection \<open>POST /api/v0/export\<close>

record apiExportRequest =
  start_from_hit_id :: int

text \<open>
  The exports table and the background tasks started by \<open>bgrun.Run\<close> that have not
  finished, each with the export it writes.
\<close>

record export_world =
  exports :: "Export list"
  writers :: "Export list"

text \<open>
  The specification leaves open what \<open>create\<close> does when the site has a non-terminal
  export: return the existing one or reject the request.
\<close>

datatype on_existing = Join | Reject

text \<open>
  Modelled from the spec: \<open>Export.Create\<close> is outside the sources. Section 4.4: it
  validates that the cursor is not negative, checks for an existing non-terminal job
  of the site, and otherwise inserts a pending row. The path of the output file is a
  parameter. The result is the export and the new table.
\<close>

definition Create ::
  "on_existing \<Rightarrow> (int \<Rightarrow> time \<Rightarrow> int \<Rightarrow> string) \<Rightarrow> int \<Rightarrow> time \<Rightarrow> int \<Rightarrow> Export list \<Rightarrow>
   error + Export \<times> Export list" where
  "Create policy mkpath site t startFrom tbl =
    (if startFrom < 0 then Inl (Guru 400 ''start_from_hit_id: must be 0 or larger'')
     else
       (case find (\<lambda>e. SiteID e = site \<and> unfinished e) tbl of
          Some e \<Rightarrow>
            (case policy of
               Join \<Rightarrow> Inr (e, tbl)
             | Reject \<Rightarrow> Inl (Guru 409 ''an export of this site is still running''))
        | None \<Rightarrow>
            (let e = \<lparr>ID = int (length tbl) + 1, SiteID = site, StartFromHitID = startFrom,
                      LastHitID = None, ExportPath = mkpath site t startFrom,
                      ExportCreatedAt = t, FinishedAt = None, NumRows = None,
                      ExportSize = None, Hash = None, ExportError = None\<rparr>
             in Inr (e, tbl @ [e]))))"

text \<open>
  \<open>api.export\<close> (lines 150-175) for the site of the authenticated user: the error of
  \<open>export.Create\<close> is returned; otherwise a background task is started for the export
  and the response is 202 with the export.
\<close>

definition export ::
  "on_existing \<Rightarrow> (int \<Rightarrow> time \<Rightarrow> int \<Rightarrow> string) \<Rightarrow> int \<Rightarrow> time \<Rightarrow> error option \<Rightarrow>
   error + apiExportRequest \<Rightarrow> export_world \<Rightarrow> (error + response) \<times> export_world" where
  "export policy mkpath site t authres decoded w =
    (case authres of
       Some err \<Rightarrow> (Inl err, w)
     | None \<Rightarrow>
        (case decoded of
           Inl err \<Rightarrow> (Inl err, w)
         | Inr req \<Rightarrow>
            (case Create policy mkpath site t (start_from_hit_id req) (exports w) of
               Inl err \<Rightarrow> (Inl err, w)
             | Inr r \<Rightarrow>
                (Inr (JSON 202 (ExportBody (fst r))),
                 \<lparr>exports = snd r, writers = writers w @ [fst r]\<rparr>))))"

text \<open>
  Modelled from the spec: \<open>Export.Run\<close> is outside the sources. Section 4.4: a run ends
  in done, with hash, size, row count and finish time recorded, or in failed, with the
  error message recorded.
\<close>

datatype run_result = Succeeded string string int | Failed string

definition finish :: "run_result \<Rightarrow> time \<Rightarrow> Export \<Rightarrow> Export" where
  "finish res t e =
     (case res of
        Succeeded h sz n \<Rightarrow>
          e\<lparr>Hash := Some h, ExportSize := Some sz, NumRows := Some n, FinishedAt := Some t\<rparr>
      | Failed msg \<Rightarrow> e\<lparr>ExportError := Some msg\<rparr>)"

text \<open>
  What happens to the exports: a create request for a site, or the end of the
  background task of an export. A task that is not running cannot end, and a row in a
  terminal state is not changed.
\<close>

datatype event = Request int time int | Finished int run_result time

definition step ::
  "on_existing \<Rightarrow> (int \<Rightarrow> time \<Rightarrow> int \<Rightarrow> string) \<Rightarrow> export_world \<Rightarrow> event \<Rightarrow> export_world" where
  "step policy mkpath w ev =
     (case ev of
        Request site t startFrom \<Rightarrow>
          snd (export policy mkpath site t None (Inr \<lparr>start_from_hit_id = startFrom\<rparr>) w)
      | Finished i res t \<Rightarrow>
          (if \<exists>e \<in> set (writers w). ID e = i
           then \<lparr>exports = map (\<lambda>e. if ID e = i \<and> unfinished e then finish res t e else e)
                              (exports w),
                 writers = filter (\<lambda>e. ID e \<noteq> i) (writers w)\<rparr>
           else w))"

definition no_exports :: export_world where
  "no_exports = \<lparr>exports = [], writers = []\<rparr>"

definition reachable :: "on_existing \<Rightarrow> (int \<Rightarrow> time \<Rightarrow> int \<Rightarrow> string) \<Rightarrow> event list \<Rightarrow> export_world" where
  "reachable policy mkpath evs = foldl (step policy mkpath) no_exports evs"

text \<open>The number of non-terminal exports and of running writers of a site.\<close>

definition open_exports :: "int \<Rightarrow> export_world \<Rightarrow> nat" where
  "open_exports site w = length (filter (\<lambda>e. SiteID e = site \<and> unfinished e) (exports w))"

definition site_writers :: "int \<Rightarrow> export_world \<Rightarrow> nat" where
  "site_writers site w = length (filter (\<lambda>e. SiteID e = site) (writers w))"

text \<open>
  The invariant of the exports: a site has at most one non-terminal export and at most
  one running writer, and every running writer writes a non-terminal export of the table.
\<close>

definition single_flight :: "export_world \<Rightarrow> bool" where
  "single_flight w \<longleftrightarrow>
     (\<forall>s. open_exports s w \<le> 1) \<and> (\<forall>s. site_writers s w \<le> 1) \<and>
     (\<forall>e \<in> set (writers w). e \<in> set (exports w) \<and> unfinished e)"

subsection \<open>Inputs for the worked examples of the export API\<close>

definition example_path :: "int \<Rightarrow> time \<Rightarrow> int \<Rightarrow> string" where
  "example_path site t startFrom =
     ''/tmp/goatcounter-export-'' @ itoa site @ ''-'' @ itoa t @ ''-'' @ itoa startFrom @
     ''.csv.gz''"

text \<open>An export that is still running: nothing but the columns set at creation.\<close>

definition running_export :: Export where
  "running_export =
     \<lparr>ID = 1, SiteID = 1, StartFromHitID = 0, LastHitID = None,
      ExportPath = ''/tmp/goatcounter-export-test-20200618T14:42:00Z-0.csv.gz'',
      ExportCreatedAt = server_now, FinishedAt = None, NumRows = None,
      ExportSize = None, Hash = None, ExportError = None\<rparr>"

definition parse_id :: "string \<Rightarrow> error + int" where
  "parse_id s =
     (if s = ''1'' then Inr 1 else if s = ''2'' then Inr 2
      else Inl (Error ''id: must be a whole number''))"

definition find_running :: "int \<Rightarrow> error + Export" where
  "find_running i = (if i = 1 then Inr running_export else Inl ErrNoRows)"

definition half_written :: "string \<Rightarrow> open_result" where
  "half_written p = (if p = ExportPath running_export then Opened ''partial'' else NotExist)"

definition nothing_there :: "string \<Rightarrow> open_result" where
  "nothing_there p = NotExist"

definition attachment :: "string \<Rightarrow> string \<Rightarrow> error + string" where
  "attachment kind name = Inr (kind @ ''; filename='' @ name)"

section \<open>Properties of POST /api/v0/count\<close>

lemma locate_fields:
  "h_session (locate geo a) = h_session a"
  "h_ip (locate geo a) = h_ip a"
  "h_browser (locate geo a) = h_browser a"
  by (simp_all add: locate_def)

lemma new_hit_Browser: "Browser (new_hit a) = h_browser a"
  by (simp add: new_hit_def)

lemma count_hit_eq:
  "count_hit geo D V ns i a (errs, ms) =
     ((case hit_error geo D V ns a of Some e \<Rightarrow> errs(i \<mapsto> e) | None \<Rightarrow> errs),
      (if V (build_hit geo D a) = None then ms @ [build_hit geo D a] else ms))"
  by (cases "V (build_hit geo D a)")
     (simp_all add: count_hit_def hit_error_def build_hit_def session_err_def
        Memstore_Append_def Let_def locate_fields new_hit_Browser)

lemma count_loop_errs:
  "fst (count_loop geo D V ns i as (errs, ms)) j =
     (if i \<le> j \<and> j < i + length as
      then (case hit_error geo D V ns (as ! (j - i)) of Some e \<Rightarrow> Some e | None \<Rightarrow> errs j)
      else errs j)"
proof (induction as arbitrary: i errs ms)
  case Nil
  then show ?case by auto
next
  case (Cons a as)
  show ?case
    by (auto simp add: count_hit_eq Cons.IH nth_Cons' split: option.splits)
qed

lemma count_loop_ms:
  "snd (count_loop geo D V ns i as (errs, ms)) = ms @ accepted geo D V as"
  unfolding accepted_def
  by (induction as arbitrary: i errs ms) (simp_all add: count_hit_eq)

lemma count_loop_fst:
  "fst (count_loop geo D V (no_sessions args) 0 (hits args) (Map.empty, ms)) =
     count_errors geo D V args"
  by (rule ext) (simp add: count_loop_errs count_errors_def split: option.splits)

lemma count_batch:
  assumes "1 \<le> length (hits args)" and "length (hits args) \<le> 100"
  shows "count geo D V None (Inr args) ms =
     (Inr (if dom (count_errors geo D V args) = {} then JSON 202 (StatusBody ''ok'')
           else JSON 400 (ErrorsBody (count_errors geo D V args))),
      ms @ accepted geo D V (hits args))"
proof -
  from assms have "hits args \<noteq> []" and "\<not> 100 < length (hits args)"
    by auto
  then show ?thesis
    by (simp add: count_def Let_def count_loop_fst count_loop_ms)
qed

lemma hit_error_None:
  "hit_error geo D V ns a = None \<longleftrightarrow> \<not> failed_validation geo D V ns a"
  by (simp add: hit_error_def failed_validation_def split: option.splits)

lemma dom_count_errors:
  "dom (count_errors geo D V args) =
     {i. i < length (hits args) \<and>
         failed_validation geo D V (no_sessions args) (hits args ! i)}"
proof -
  have "count_errors geo D V args i \<noteq> None \<longleftrightarrow>
      i < length (hits args) \<and> failed_validation geo D V (no_sessions args) (hits args ! i)"
    for i
    using hit_error_None [of geo D V "no_sessions args" "hits args ! i"]
    by (auto simp: count_errors_def)
  then show ?thesis
    unfolding dom_def by blast
qed

lemma unlisted_accepted:
  assumes "i < length (hits args)" and "i \<notin> dom (count_errors geo D V args)"
  shows "build_hit geo D (hits args ! i) \<in> set (accepted geo D V (hits args))"
proof -
  from assms have "\<not> failed_validation geo D V (no_sessions args) (hits args ! i)"
    by (simp add: dom_count_errors)
  then have "V (build_hit geo D (hits args ! i)) = None"
    by (simp add: failed_validation_def)
  with assms(1) show ?thesis
    by (auto simp: accepted_def)
qed

lemma count_example_eval:
  "count_loop no_geo (Defaults_spec server_now) (Validate_spec server_now) False 0
     [path_only ''/foo''] (Map.empty, []) =
   ([0 \<mapsto> no_session_msg], [(new_hit (path_only ''/foo''))\<lparr>CreatedAt := server_now\<rparr>])"
  by (simp add: count_hit_def Let_def locate_def new_hit_def path_only_def Defaults_spec_def
      Validate_spec_def Memstore_Append_def zero_time_def server_now_def)

text \<open>
  C1 (as stated, refuted): with \<open>no_sessions\<close> false, the hit \<open>{Path: "/foo"}\<close> has no
  session token, no browser and no IP. The handler answers 400 and lists index 0 with
  the session message, but the record is in the Memstore buffer all the same: the third
  case of the \<open>switch\<close> does not leave the iteration.
\<close>

theorem count_no_session_hit_is_appended:
  "fst (count no_geo (Defaults_spec server_now) (Validate_spec server_now) None
          (Inr \<lparr>no_sessions = False, hits = [path_only ''/foo'']\<rparr>) []) =
     Inr (JSON 400 (ErrorsBody [0 \<mapsto> no_session_msg])) \<and>
   snd (count no_geo (Defaults_spec server_now) (Validate_spec server_now) None
          (Inr \<lparr>no_sessions = False, hits = [path_only ''/foo'']\<rparr>) []) =
     [(new_hit (path_only ''/foo''))\<lparr>CreatedAt := server_now\<rparr>]"
  by (simp add: count_def Let_def count_example_eval del: count_loop.simps)

text \<open>
  C1 (amended): for a hit of a request with \<open>no_sessions\<close> false whose session token is
  empty and whose browser or IP is blank, the response is 400 and its errors object
  lists the hit's index (with the session message, or with the message of
  \<open>hit.Validate\<close> when that fails too); the record is not rejected on that ground: the
  buffer receives every hit that \<open>hit.Validate\<close> accepts, this one included.
\<close>

theorem count_no_session_hit_listed:
  assumes "\<not> no_sessions args"
    and "1 \<le> length (hits args)" and "length (hits args) \<le> 100"
    and "i < length (hits args)"
    and "h_session (hits args ! i) = []"
    and "h_browser (hits args ! i) = [] \<or> h_ip (hits args ! i) = []"
  shows "fst (count geo D V None (Inr args) ms) =
           Inr (JSON 400 (ErrorsBody (count_errors geo D V args))) \<and>
         count_errors geo D V args i =
           Some (case V (build_hit geo D (hits args ! i)) of
                   Some e \<Rightarrow> e | None \<Rightarrow> no_session_msg) \<and>
         snd (count geo D V None (Inr args) ms) = ms @ accepted geo D V (hits args) \<and>
         (build_hit geo D (hits args ! i) \<in> set (accepted geo D V (hits args)) \<longleftrightarrow>
            V (build_hit geo D (hits args ! i)) = None)"
proof -
  let ?a = "hits args ! i"
  have serr: "session_err (no_sessions args) ?a"
    using assms(1,5,6) by (simp add: session_err_def)
  have listed: "count_errors geo D V args i =
      Some (case V (build_hit geo D ?a) of Some e \<Rightarrow> e | None \<Rightarrow> no_session_msg)"
    using assms(4) serr by (simp add: count_errors_def hit_error_def split: option.splits)
  then have "dom (count_errors geo D V args) \<noteq> {}"
    by auto
  then have whole: "count geo D V None (Inr args) ms =
      (Inr (JSON 400 (ErrorsBody (count_errors geo D V args))),
       ms @ accepted geo D V (hits args))"
    using count_batch [OF assms(2,3), of geo D V ms] by simp
  have "?a \<in> set (hits args)"
    using assms(4) by simp
  then have "build_hit geo D ?a \<in> set (accepted geo D V (hits args)) \<longleftrightarrow>
      V (build_hit geo D ?a) = None"
    by (auto simp: accepted_def)
  with listed whole show ?thesis
    by simp
qed

theorem count_no_session_hit_listed_witness:
  "\<not> no_sessions \<lparr>no_sessions = False, hits = [path_only ''/foo'']\<rparr> \<and>
   h_session (path_only ''/foo'') = [] \<and> h_browser (path_only ''/foo'') = [] \<and>
   count_errors no_geo (Defaults_spec server_now) (Validate_spec server_now)
     \<lparr>no_sessions = False, hits = [path_only ''/foo'']\<rparr> 0 = Some no_session_msg \<and>
   build_hit no_geo (Defaults_spec server_now) (path_only ''/foo'') \<in>
     set (accepted no_geo (Defaults_spec server_now) (Validate_spec server_now)
            [path_only ''/foo''])"
proof -
  let ?args = "\<lparr>no_sessions = False, hits = [path_only ''/foo'']\<rparr>"
  have v: "Validate_spec server_now
      (build_hit no_geo (Defaults_spec server_now) (path_only ''/foo'')) = None"
    by (simp add: build_hit_def Let_def locate_def new_hit_def path_only_def
        Defaults_spec_def Validate_spec_def zero_time_def server_now_def)
  have f: "h_session (path_only ''/foo'') = []" "h_browser (path_only ''/foo'') = []"
    by (simp_all add: path_only_def)
  from count_no_session_hit_listed [of ?args 0 no_geo "Defaults_spec server_now"
      "Validate_spec server_now" "[]"] f v
  show ?thesis
    by simp
qed

text \<open>
  C2: for a request with between 1 and 100 hits, the errors object is keyed exactly by
  the indices of the hits that failed validation, each message computed from that hit
  alone (\<open>count_errors\<close>); every hit whose index is not listed is in the buffer
  afterwards; and the response is 400 with the errors object when a hit failed,
  otherwise 202 with \<open>{"status":"ok"}\<close>.
\<close>

theorem count_validates_each_hit:
  assumes "1 \<le> length (hits args)" and "length (hits args) \<le> 100"
  shows "dom (count_errors geo D V args) =
           {i. i < length (hits args) \<and>
               failed_validation geo D V (no_sessions args) (hits args ! i)} \<and>
         (\<forall>i < length (hits args). i \<notin> dom (count_errors geo D V args) \<longrightarrow>
            build_hit geo D (hits args ! i) \<in> set (snd (count geo D V None (Inr args) ms))) \<and>
         count geo D V None (Inr args) ms =
           (Inr (if dom (count_errors geo D V args) = {} then JSON 202 (StatusBody ''ok'')
                 else JSON 400 (ErrorsBody (count_errors geo D V args))),
            ms @ accepted geo D V (hits args))"
proof (intro conjI allI impI)
  show "dom (count_errors geo D V args) =
      {i. i < length (hits args) \<and>
          failed_validation geo D V (no_sessions args) (hits args ! i)}"
    by (rule dom_count_errors)
next
  show whole: "count geo D V None (Inr args) ms =
      (Inr (if dom (count_errors geo D V args) = {} then JSON 202 (StatusBody ''ok'')
            else JSON 400 (ErrorsBody (count_errors geo D V args))),
       ms @ accepted geo D V (hits args))"
    by (rule count_batch [OF assms])
  fix i
  assume "i < length (hits args)" and "i \<notin> dom (count_errors geo D V args)"
  then have "build_hit geo D (hits args ! i) \<in> set (accepted geo D V (hits args))"
    by (rule unlisted_accepted)
  then show "build_hit geo D (hits args ! i) \<in> set (snd (count geo D V None (Inr args) ms))"
    by (simp add: whole)
qed

lemma three_hits_errors:
  "count_errors no_geo (Defaults_spec server_now) (Validate_spec server_now) three_hits 0 = None"
  "count_errors no_geo (Defaults_spec server_now) (Validate_spec server_now) three_hits 1 =
     Some ''path: must be set''"
  "count_errors no_geo (Defaults_spec server_now) (Validate_spec server_now) three_hits 2 = None"
  by (simp_all add: count_errors_def three_hits_def hit_error_def session_err_def build_hit_def
      Let_def locate_def new_hit_def path_only_def Defaults_spec_def Validate_spec_def
      zero_time_def server_now_def)

lemma three_hits_accepted:
  "accepted no_geo (Defaults_spec server_now) (Validate_spec server_now) (hits three_hits) =
     [(new_hit (path_only ''/foo''))\<lparr>CreatedAt := server_now\<rparr>,
      (new_hit (path_only ''/bar''))\<lparr>CreatedAt := server_now\<rparr>]"
  by (simp add: accepted_def three_hits_def build_hit_def
      Let_def locate_def new_hit_def path_only_def Defaults_spec_def Validate_spec_def
      zero_time_def server_now_def)

theorem count_validates_each_hit_witness:
  "1 \<le> length (hits three_hits) \<and> length (hits three_hits) \<le> 100 \<and>
   count_errors no_geo (Defaults_spec server_now) (Validate_spec server_now) three_hits 1 =
     Some ''path: must be set'' \<and>
   count no_geo (Defaults_spec server_now) (Validate_spec server_now) None (Inr three_hits) [] =
     (Inr (JSON 400 (ErrorsBody
        (count_errors no_geo (Defaults_spec server_now) (Validate_spec server_now) three_hits))),
      [(new_hit (path_only ''/foo''))\<lparr>CreatedAt := server_now\<rparr>,
       (new_hit (path_only ''/bar''))\<lparr>CreatedAt := server_now\<rparr>])"
proof -
  have h1: "1 \<le> length (hits three_hits)" and h2: "length (hits three_hits) \<le> 100"
    by (simp_all add: three_hits_def)
  have ne: "dom (count_errors no_geo (Defaults_spec server_now) (Validate_spec server_now)
      three_hits) \<noteq> {}"
    using three_hits_errors(2) by auto
  from count_validates_each_hit [OF h1 h2, of no_geo "Defaults_spec server_now"
      "Validate_spec server_now" "[]"]
  have "count no_geo (Defaults_spec server_now) (Validate_spec server_now) None
      (Inr three_hits) [] =
    (Inr (if dom (count_errors no_geo (Defaults_spec server_now) (Validate_spec server_now)
               three_hits) = {}
          then JSON 202 (StatusBody ''ok'')
          else JSON 400 (ErrorsBody (count_errors no_geo (Defaults_spec server_now)
               (Validate_spec server_now) three_hits))),
     [] @ accepted no_geo (Defaults_spec server_now) (Validate_spec server_now)
       (hits three_hits))"
    by blast
  with ne h1 h2 three_hits_errors(2) three_hits_accepted show ?thesis
    by simp
qed

text \<open>
  C3: a request with more than 100 hits is answered 400 with the batch-size error and
  leaves the Memstore buffer as it was.
\<close>

theorem count_rejects_oversized_batch:
  assumes "100 < length (hits args)"
  shows "count geo D V None (Inr args) ms =
     (Inr (JSON 400 (ErrorBody ''maximum amount of pageviews in one batch is 100'')), ms)"
proof -
  from assms have "hits args \<noteq> []"
    by auto
  with assms show ?thesis
    by (simp add: count_def)
qed

theorem count_rejects_oversized_batch_witness:
  "100 < length (hits \<lparr>no_sessions = True, hits = replicate 101 (path_only ''/foo'')\<rparr>) \<and>
   count no_geo (Defaults_spec server_now) (Validate_spec server_now) None
     (Inr \<lparr>no_sessions = True, hits = replicate 101 (path_only ''/foo'')\<rparr>) [] =
     (Inr (JSON 400 (ErrorBody ''maximum amount of pageviews in one batch is 100'')), [])"
proof -
  have h: "100 < length (hits \<lparr>no_sessions = True, hits = replicate 101 (path_only ''/foo'')\<rparr>)"
    by simp
  from h count_rejects_oversized_batch [OF h, of no_geo "Defaults_spec server_now"
      "Validate_spec server_now" "[]"]
  show ?thesis
    by simp
qed

section \<open>Properties of the replay importer\<close>

subsection \<open>The version check\<close>

lemma importReplay_header:
  "importReplay ver parse url extra wall0 None (Inr header # rest) speed start0 =
     (case check_version ver header of
        Some out \<Rightarrow> Some (out, [])
      | None \<Rightarrow>
         (case read_rows parse url rest (rows_init start0) of
            Inl err \<Rightarrow> Some (Returned 1 (Some err), [])
          | Inr rs \<Rightarrow>
             (case replay_loop extra (sleep_of speed) (replay_init wall0 rs) of
                None \<Rightarrow> None
              | Some fin \<Rightarrow> Some (Returned 0 None, fired fin))))"
  by (simp add: importReplay_def)

lemma check_version_empty_field:
  "ver \<noteq> [] \<Longrightarrow> check_version ver ([] # cols) =
     Some (Panicked ''slice bounds out of range [:1] with length 0'')"
  by (simp add: check_version_def)

lemma check_version_no_fields:
  "check_version ver [] = Some (Panicked ''index out of range [0] with length 0'')"
  by (simp add: check_version_def)

lemma check_version_wrong:
  "h \<noteq> [] \<Longrightarrow> \<not> prefix ver h \<Longrightarrow> check_version ver (h # cols) =
     Some (Returned 1 (Some (Error (''wrong version of CSV database: '' @ take 1 h @
                    '' (expected: '' @ ver @ '')''))))"
  by (simp add: check_version_def)

lemma check_version_ok:
  "prefix ver h \<Longrightarrow> check_version ver (h # cols) = None"
  by (simp add: check_version_def)

text \<open>
  A header whose first field is not empty and does not start with the version token is
  rejected with the error, before any row is read and with nothing fired.
\<close>

lemma importReplay_wrong_version:
  assumes "h \<noteq> []" and "\<not> prefix ver h"
  shows "importReplay ver parse url extra wall0 None (Inr (h # cols) # rest) speed start0 =
     Some (Returned 1 (Some (Error (''wrong version of CSV database: '' @ take 1 h @
                    '' (expected: '' @ ver @ '')''))), [])"
  by (simp add: importReplay_header check_version_wrong [OF assms])

text \<open>
  C6 (the code at the failing input): with the version token \<open>1\<close>, a header row whose
  first field is empty does not carry the token, and \<open>importReplay\<close> panics on
  \<open>header[0][:1]\<close> instead of returning the error.
\<close>

theorem importReplay_empty_version_field:
  "importReplay ''1'' parse url extra wall0 None
     (Inr ['''', ''Title'', ''Event'', ''Bot'', ''Session'', ''FirstVisit'', ''Referrer'',
           ''Referrer scheme'', ''Browser'', ''Screen size'', ''Location'', ''Date''] # rest)
     speed start0 =
   Some (Panicked ''slice bounds out of range [:1] with length 0'', [])"
  by (simp add: importReplay_header check_version_def)

text \<open>
  C10: the error branch of the version check is not total. With a non-empty version
  token, a header row whose first field is the empty string makes \<open>importReplay\<close> panic
  on \<open>header[0][:1]\<close>, and a header row of no fields makes it panic on \<open>header[0]\<close>;
  neither returns the error.
\<close>

theorem importReplay_version_error_panics:
  assumes "ExportVersion \<noteq> []"
  shows "importReplay ExportVersion parse url extra wall0 None (Inr ([] # cols) # rest)
           speed start0 =
           Some (Panicked ''slice bounds out of range [:1] with length 0'', []) \<and>
         importReplay ExportVersion parse url extra wall0 None (Inr [] # rest)
           speed start0 =
           Some (Panicked ''index out of range [0] with length 0'', [])"
  by (simp add: importReplay_header check_version_empty_field [OF assms]
      check_version_no_fields)

theorem importReplay_version_error_panics_witness:
  "''1'' \<noteq> [] \<and>
   importReplay ''1'' no_parse example_site no_extra server_now None
     [Inr ['''', ''Title'']] 1 zero_time =
     Some (Panicked ''slice bounds out of range [:1] with length 0'', []) \<and>
   importReplay ''1'' no_parse example_site no_extra server_now None
     [Inr []] 1 zero_time =
     Some (Panicked ''index out of range [0] with length 0'', [])"
proof -
  have h: "''1'' \<noteq> []"
    by simp
  from h importReplay_version_error_panics [OF h, of no_parse example_site
      no_extra server_now "[''Title'']" "[]" 1 zero_time]
  show ?thesis
    by simp
qed

subsection \<open>The replay loop\<close>

lemma replay_loop_Some_ahead:
  assumes "replay_loop extra d st = Some fin"
  shows "\<not> (now st + second \<le> wall st \<and> second \<le> d)"
  using assms
proof (rule replay_loop.raw_induct
    [where P = "\<lambda>extra d st fin. \<not> (now st + second \<le> wall st \<and> second \<le> d)", rotated],
    goal_cases)
  case (1 loop e d' s y)
  show ?case
  proof
    assume inv: "now s + second \<le> wall s \<and> second \<le> d'"
    then have "\<not> caught_up (tick s)"
      by (simp add: caught_up_def tick_def)
    with 1(2) have "loop e d' (pause e d' (tick s)) = Some y"
      by simp
    then have "\<not> (now (pause e d' (tick s)) + second \<le> wall (pause e d' (tick s))
        \<and> second \<le> d')"
      by (rule 1(1))
    with inv show False
      by (simp add: pause_def tick_def)
  qed
qed

text \<open>
  When a tick takes at least a second of wall-clock time and the virtual clock starts a
  second or more behind, the virtual clock never passes the wall clock: the loop does
  not return, whatever else takes time.
\<close>

lemma replay_loop_never:
  assumes "now st + second \<le> wall st" and "second \<le> d"
  shows "replay_loop extra d st = None"
proof (cases "replay_loop extra d st")
  case None
  then show ?thesis .
next
  case (Some fin)
  from replay_loop_Some_ahead [OF this] assms show ?thesis
    by simp
qed

lemma sleep_of_default: "sleep_of 1 = second"
  by (simp add: sleep_of_def)

lemma read_rows_one_row:
  "length row = 12 \<Longrightarrow> read_rows parse url [Inr row] st = Inr (read_row parse url row st)"
  by simp

lemma read_row_start:
  "start st \<noteq> zero_time \<Longrightarrow> start (read_row parse url row st) = start st"
  by (simp add: read_row_def Let_def)

text \<open>
  C8 (the code at the failing input): at the default speed 1, a replay of an export
  started at 2020-01-18 14:42:00 while the wall clock reads 2020-06-18 14:42:00 never
  returns, for every parser, site and behaviour of the clock.
\<close>

theorem importReplay_default_speed_never_returns:
  "importReplay ver parse url extra server_now None
     [Inr [ver @ ''Path''], Inr (export_row ''1'')] 1 replay_start = None"
proof -
  let ?rs = "read_row parse url (export_row ''1'') (rows_init replay_start)"
  have len: "length (export_row ''1'') = 12"
    by (simp add: export_row_def)
  have "start (rows_init replay_start) \<noteq> zero_time"
    by (simp add: rows_init_def replay_start_def zero_time_def)
  then have "start ?rs = replay_start"
    by (simp add: read_row_start rows_init_def)
  then have "now (replay_init server_now ?rs) + second \<le> wall (replay_init server_now ?rs)"
    by (simp add: replay_init_def replay_start_def server_now_def second_def)
  then have "replay_loop extra (sleep_of 1) (replay_init server_now ?rs) = None"
    by (rule replay_loop_never) (simp add: sleep_of_default)
  then show ?thesis
    by (simp add: importReplay_header check_version_ok read_rows_one_row [OF len]
        del: read_rows.simps)
qed

lemma replay_loop_trace:
  assumes "replay_loop extra d st = Some fin"
  shows "\<exists>n. slept fin = slept st @ replicate n d \<and>
             length (fired fin) = length (fired st) + n + 1 \<and>
             now fin = now st + (int n + 1) * second \<and>
             caught_up fin"
  using assms
proof (rule replay_loop.raw_induct
    [where P = "\<lambda>extra d st fin. \<exists>n. slept fin = slept st @ replicate n d \<and>
             length (fired fin) = length (fired st) + n + 1 \<and>
             now fin = now st + (int n + 1) * second \<and> caught_up fin", rotated],
    goal_cases)
  case (1 loop e d' s y)
  show ?case
  proof (cases "caught_up (tick s)")
    case True
    with 1(2) have "y = tick s"
      by simp
    with True have "slept y = slept s @ replicate 0 d' \<and>
        length (fired y) = length (fired s) + 0 + 1 \<and>
        now y = now s + (int 0 + 1) * second \<and> caught_up y"
      by (simp add: tick_def)
    then show ?thesis
      by blast
  next
    case False
    with 1(2) have "loop e d' (pause e d' (tick s)) = Some y"
      by simp
    from 1(1) [OF this] obtain n where
      n: "slept y = slept (pause e d' (tick s)) @ replicate n d'"
         "length (fired y) = length (fired (pause e d' (tick s))) + n + 1"
         "now y = now (pause e d' (tick s)) + (int n + 1) * second"
         "caught_up y"
      by blast
    then have "slept y = slept s @ replicate (Suc n) d' \<and>
        length (fired y) = length (fired s) + Suc n + 1 \<and>
        now y = now s + (int (Suc n) + 1) * second \<and> caught_up y"
      by (simp add: pause_def tick_def algebra_simps)
    then show ?thesis
      by blast
  qed
qed

text \<open>
  When the sleep is shorter than a second and nothing else takes time, the virtual clock
  gains on the wall clock at every tick and the loop returns.
\<close>

lemma replay_loop_returns:
  assumes "d < second"
  shows "\<exists>fin. replay_loop no_extra d st = Some fin"
proof (induction "nat (wall st - now st)" arbitrary: st rule: less_induct)
  case less
  show ?case
  proof (cases "caught_up (tick st)")
    case True
    then show ?thesis
      by (subst replay_loop.simps) simp
  next
    case False
    let ?st' = "pause no_extra d (tick st)"
    from False have le: "now st + second \<le> wall st"
      by (simp add: caught_up_def tick_def)
    have "wall ?st' - now ?st' = wall st - now st - (second - d)"
      by (simp add: pause_def tick_def no_extra_def)
    with le assms have "nat (wall ?st' - now ?st') < nat (wall st - now st)"
      by (simp add: second_def)
    from less [OF this] obtain fin where "replay_loop no_extra d ?st' = Some fin"
      by blast
    with False show ?thesis
      by (subst replay_loop.simps) simp
  qed
qed

lemma replay_example_run:
  "replay_loop no_extra (sleep_of 4) behind_by_1500ms =
     Some \<lparr>now = 2000000000, wall = 1750000000, pending = (\<lambda>t. []),
           fired = [(0, []), (1000000000, [])], slept = [250000000], iter = 1\<rparr>"
  apply (subst replay_loop.simps)
  apply (subst replay_loop.simps)
  apply (simp add: behind_by_1500ms_def tick_def pause_def caught_up_def sleep_of_def
      second_def no_extra_def Unix_def fun_upd_def)
  done


lemma sleep_of_faster: "1 < speed \<Longrightarrow> sleep_of speed < second"
proof -
  assume "1 < speed"
  then have "1000000000 / speed < 1000000000"
    by (simp add: field_simps)
  then have "\<lfloor>1000000000 / speed\<rfloor> < 1000000000"
    by linarith
  with \<open>1 < speed\<close> show ?thesis
    by (simp add: sleep_of_def second_def)
qed

lemma replay_loop_returns_when_faster:
  "1 < speed \<Longrightarrow> \<exists>fin. replay_loop no_extra (sleep_of speed) st = Some fin"
  by (rule replay_loop_returns) (rule sleep_of_faster)

text \<open>
  C9 (as stated, refuted): at the speed multiplier 1/2 the harness sleeps one second
  after a tick, not the two seconds that one second divided by the multiplier would be.
\<close>

theorem replay_half_speed_sleeps_one_second:
  "sleep_of (1 / 2) = 1000000000 \<and>
   \<lfloor>1000000000 / (1 / 2 :: real)\<rfloor> = (2000000000 :: int) \<and>
   slept (pause no_extra (sleep_of (1 / 2)) (tick behind_by_1500ms)) = [1000000000]"
  by (simp add: sleep_of_def second_def pause_def tick_def behind_by_1500ms_def)

text \<open>
  C9 (amended): the sleep after a tick is one second divided by the speed multiplier,
  rounded down to whole nanoseconds, when the multiplier is greater than 1, and one
  second otherwise. Every tick that does not end the loop is followed by exactly one
  sleep of that duration before the next tick, so a run that returns has slept that
  duration once between each two consecutive ticks.
\<close>

theorem replay_sleep_between_ticks:
  "sleep_of speed = (if 1 < speed then \<lfloor>1000000000 / speed\<rfloor> else 1000000000) \<and>
   replay_loop extra (sleep_of speed) st =
     (if caught_up (tick st) then Some (tick st)
      else replay_loop extra (sleep_of speed) (pause extra (sleep_of speed) (tick st))) \<and>
   slept (pause extra (sleep_of speed) (tick st)) = slept st @ [sleep_of speed] \<and>
   wall (pause extra (sleep_of speed) (tick st)) =
     wall st + sleep_of speed + int (extra (iter st)) \<and>
   (replay_loop extra (sleep_of speed) st = Some fin \<longrightarrow>
      (\<exists>n. slept fin = slept st @ replicate n (sleep_of speed) \<and>
           length (fired fin) = length (fired st) + n + 1))"
proof (intro conjI impI)
  show "sleep_of speed = (if 1 < speed then \<lfloor>1000000000 / speed\<rfloor> else 1000000000)"
    by (simp add: sleep_of_def second_def)
  show "replay_loop extra (sleep_of speed) st =
     (if caught_up (tick st) then Some (tick st)
      else replay_loop extra (sleep_of speed) (pause extra (sleep_of speed) (tick st)))"
    by (rule replay_loop.simps)
  show "slept (pause extra (sleep_of speed) (tick st)) = slept st @ [sleep_of speed]"
    by (simp add: pause_def tick_def)
  show "wall (pause extra (sleep_of speed) (tick st)) =
     wall st + sleep_of speed + int (extra (iter st))"
    by (simp add: pause_def tick_def)
next
  assume "replay_loop extra (sleep_of speed) st = Some fin"
  from replay_loop_trace [OF this]
  show "\<exists>n. slept fin = slept st @ replicate n (sleep_of speed) \<and>
           length (fired fin) = length (fired st) + n + 1"
    by blast
qed

theorem replay_sleep_between_ticks_witness:
  "replay_loop no_extra (sleep_of 4) behind_by_1500ms =
     Some \<lparr>now = 2000000000, wall = 1750000000, pending = (\<lambda>t. []),
           fired = [(0, []), (1000000000, [])], slept = [250000000], iter = 1\<rparr> \<and>
   sleep_of 4 = 250000000 \<and>
   (\<exists>n. [250000000] = slept behind_by_1500ms @ replicate n (sleep_of 4) \<and>
        length [(0 :: time, [] :: Request list), (1000000000, [])] =
          length (fired behind_by_1500ms) + n + 1)"
proof -
  have s: "sleep_of 4 = 250000000"
    by (simp add: sleep_of_def)
  from replay_sleep_between_ticks [of 4 no_extra behind_by_1500ms
      "\<lparr>now = 2000000000, wall = 1750000000, pending = (\<lambda>t. []),
        fired = [(0, []), (1000000000, [])], slept = [250000000], iter = 1\<rparr>"]
    replay_example_run
  have "\<exists>n. slept \<lparr>now = 2000000000, wall = 1750000000, pending = (\<lambda>t. []),
        fired = [(0, []), (1000000000, [])], slept = [250000000], iter = 1\<rparr> =
          slept behind_by_1500ms @ replicate n (sleep_of 4) \<and>
        length (fired \<lparr>now = 2000000000, wall = 1750000000, pending = (\<lambda>t. []),
        fired = [(0, []), (1000000000, [])], slept = [250000000], iter = 1\<rparr>) =
          length (fired behind_by_1500ms) + n + 1"
    by blast
  with s replay_example_run show ?thesis
    by simp
qed

subsection \<open>Decimal numerals and dotted quads\<close>

lemma digit_cases:
  assumes "d < 10"
  obtains "d = 0" | "d = 1" | "d = 2" | "d = 3" | "d = 4" | "d = 5" | "d = 6" | "d = 7"
    | "d = 8" | "d = (9::nat)"
  using assms by atomize_elim arith

lemma digit_val_digit_char: "d < 10 \<Longrightarrow> digit_val (digit_char d) = d"
  by (erule digit_cases) (simp_all add: digit_val_def digit_char_def)

lemma digit_char_not_dot: "d < 10 \<Longrightarrow> digit_char d \<noteq> CHR ''.''"
  by (erule digit_cases) (simp_all add: digit_char_def)

lemma decimal_val_snoc: "decimal_val (cs @ [c]) = 10 * decimal_val cs + digit_val c"
  by (simp add: decimal_val_def)

lemma decimal_val_digits: "decimal_val (digits n) = n"
proof (induction n rule: digits.induct)
  case (1 n)
  show ?case
  proof (cases "n < 10")
    case True
    then show ?thesis
      by (subst digits.simps) (simp add: decimal_val_def digit_val_digit_char)
  next
    case False
    with 1 have "decimal_val (digits (n div 10)) = n div 10"
      by simp
    with False show ?thesis
      by (subst digits.simps) (simp add: decimal_val_snoc digit_val_digit_char)
  qed
qed

lemma digits_inj: "digits m = digits n \<Longrightarrow> m = n"
  by (metis decimal_val_digits)

lemma digits_no_dot: "CHR ''.'' \<notin> set (digits n)"
proof (induction n rule: digits.induct)
  case (1 n)
  show ?case
  proof (cases "n < 10")
    case True
    then show ?thesis
      using digit_char_not_dot [of n] by (subst digits.simps) auto
  next
    case False
    with 1 have "CHR ''.'' \<notin> set (digits (n div 10))"
      by simp
    with False show ?thesis
      using digit_char_not_dot [of "n mod 10"] by (subst digits.simps) auto
  qed
qed

lemma split_at_dot:
  assumes "CHR ''.'' \<notin> set xs" and "CHR ''.'' \<notin> set ys"
    and "xs @ CHR ''.'' # r = ys @ CHR ''.'' # s"
  shows "xs = ys \<and> r = s"
  using assms
proof (induction xs arbitrary: ys)
  case Nil
  then show ?case by (cases ys) auto
next
  case (Cons x xs)
  then show ?case by (cases ys) auto
qed

lemma dotted_quad_alt:
  "dotted_quad k =
     digits (k div 2 ^ 24) @ CHR ''.'' # (digits (k div 2 ^ 16 mod 256) @ CHR ''.'' #
       (digits (k div 2 ^ 8 mod 256) @ CHR ''.'' # digits (k mod 256)))"
  by (simp add: dotted_quad_def)

lemma dotted_quad_parts:
  assumes "dotted_quad j = dotted_quad k"
  shows "digits (j div 2 ^ 24) = digits (k div 2 ^ 24) \<and>
         digits (j div 2 ^ 16 mod 256) = digits (k div 2 ^ 16 mod 256) \<and>
         digits (j div 2 ^ 8 mod 256) = digits (k div 2 ^ 8 mod 256) \<and>
         digits (j mod 256) = digits (k mod 256)"
proof -
  note e1 = assms [unfolded dotted_quad_alt]
  note s1 = split_at_dot [OF digits_no_dot digits_no_dot e1]
  note s2 = split_at_dot [OF digits_no_dot digits_no_dot conjunct2 [OF s1]]
  note s3 = split_at_dot [OF digits_no_dot digits_no_dot conjunct2 [OF s2]]
  from conjunct1 [OF s1] conjunct1 [OF s2] s3 show ?thesis
    by blast
qed

lemma byte_step:
  fixes j k :: nat
  assumes "j div (b * 256) = k div (b * 256)" and "j div b mod 256 = k div b mod 256"
  shows "j div b = k div b"
proof -
  have "j div b = (j div b div 256) * 256 + j div b mod 256"
    by simp
  also have "j div b div 256 = j div (b * 256)"
    by (simp add: div_mult2_eq)
  also have "\<dots> = k div (b * 256)"
    by (rule assms(1))
  also have "\<dots> = k div b div 256"
    by (simp add: div_mult2_eq)
  also have "j div b mod 256 = k div b mod 256"
    by (rule assms(2))
  finally show ?thesis
    by simp
qed

lemma dotted_quad_inj: "dotted_quad j = dotted_quad k \<Longrightarrow> j = k"
proof -
  assume "dotted_quad j = dotted_quad k"
  from dotted_quad_parts [OF this]
  have a: "j div 16777216 = k div 16777216"
    and b: "j div 65536 mod 256 = k div 65536 mod 256"
    and c: "j div 256 mod 256 = k div 256 mod 256"
    and d: "j mod 256 = k mod 256"
    by (auto dest: digits_inj)
  from a b have "j div 65536 = k div 65536"
    using byte_step [of j 65536 k] by simp
  with c have "j div 256 = k div 256"
    using byte_step [of j 256 k] by simp
  with d show "j = k"
    using byte_step [of j 1 k] by simp
qed

lemma sint_of_nat_small: "k < 2 ^ 31 \<Longrightarrow> sint (of_nat k :: 32 word) = int k"
proof -
  assume "k < 2 ^ 31"
  then have "int k < 2 ^ 31"
    by (metis of_nat_less_iff of_nat_numeral of_nat_power)
  then have "signed_take_bit 31 (int k) = int k"
    by (intro signed_take_bit_int_eq_self) simp_all
  then show ?thesis
    by (simp add: signed_of_nat)
qed

lemma go_rem_nonneg: "0 \<le> a \<Longrightarrow> go_rem a 256 = a mod 256"
  by (cases "a = 0") (simp_all add: go_rem_def)

lemma itoa_nat: "itoa (int n) = digits n"
  by (simp add: itoa_def)

lemma format_ip_of_nat:
  assumes "k < 2 ^ 31"
  shows "format_ip (of_nat k) = dotted_quad k"
proof -
  have s: "sint (of_nat k :: 32 word) = int k"
    by (rule sint_of_nat_small [OF assms])
  have d: "int k div 2 ^ n = int (k div 2 ^ n)" for n
    by (simp add: zdiv_int)
  have m: "go_rem (int a) 256 = int (a mod 256)" for a
    by (simp add: go_rem_nonneg zmod_int)
  show ?thesis
    unfolding format_ip_def dotted_quad_def s d m itoa_nat ..
qed

subsection \<open>The row loop\<close>

lemma read_rows_run:
  "\<forall>row \<in> set rows. length row = 12 \<Longrightarrow>
   read_rows parse url (map Inr rows) st = Inr (run_rows parse url rows st)"
  by (induction rows arbitrary: st) (simp_all add: run_rows_def)

lemma run_rows_snoc:
  "run_rows parse url (rows @ [row]) st = read_row parse url row (run_rows parse url rows st)"
  by (simp add: run_rows_def)

lemma first_seen_snoc:
  "first_seen (xs @ [x]) = (if x \<in> set xs then first_seen xs else first_seen xs @ [x])"
  by (simp add: first_seen_def)

lemma set_first_seen: "set (first_seen xs) = set xs"
  by (simp add: first_seen_def)

lemma distinct_first_seen: "distinct (first_seen xs)"
  by (simp add: first_seen_def)

lemma length_first_seen: "length (first_seen xs) = card (set xs)"
  by (simp add: first_seen_def length_remdups_card_conv)

lemma first_seen_distinct: "distinct xs \<Longrightarrow> first_seen xs = xs"
  by (simp add: first_seen_def distinct_remdups_id)

lemma read_row_ips:
  "ips (read_row parse url row st) =
     (case ips st (row_session row) of
        Some ip \<Rightarrow> ips st
      | None \<Rightarrow> (ips st)(row_session row \<mapsto> format_ip (nextIP st)))"
  by (simp add: read_row_def assign_ip_def Let_def split: option.splits)

lemma read_row_nextIP:
  "nextIP (read_row parse url row st) =
     (case ips st (row_session row) of Some ip \<Rightarrow> nextIP st | None \<Rightarrow> nextIP st + 1)"
  by (simp add: read_row_def assign_ip_def Let_def split: option.splits)

lemma read_row_requests:
  "requests (read_row parse url row st) b =
     (if b = Unix (row_created parse row)
      then requests st b @
        [row_request url row (the (ips (read_row parse url row st) (row_session row)))]
      else requests st b)"
  by (simp add: read_row_def assign_ip_def Let_def split: option.splits)

lemma read_row_keeps:
  "s \<in> dom (ips st) \<Longrightarrow> ips (read_row parse url row st) s = ips st s"
  by (auto simp: read_row_ips split: option.splits)

lemma ips_inv:
  "dom (ips (run_rows parse url rows (rows_init start0))) = set (map row_session rows) \<and>
   nextIP (run_rows parse url rows (rows_init start0)) =
     of_nat (length (first_seen (map row_session rows))) \<and>
   (\<forall>k < length (first_seen (map row_session rows)).
      ips (run_rows parse url rows (rows_init start0)) (first_seen (map row_session rows) ! k) =
        Some (format_ip (of_nat k)))"
proof (induction rows rule: rev_induct)
  case Nil
  show ?case
    by (simp add: run_rows_def rows_init_def first_seen_def)
next
  case (snoc row rows)
  let ?st = "run_rows parse url rows (rows_init start0)"
  let ?ss = "map row_session rows"
  let ?s = "row_session row"
  let ?fs = "first_seen ?ss"
  from snoc have dom: "dom (ips ?st) = set ?ss"
    and nxt: "nextIP ?st = of_nat (length ?fs)"
    and old: "\<And>k. k < length ?fs \<Longrightarrow> ips ?st (?fs ! k) = Some (format_ip (of_nat k))"
    by simp_all
  show ?case
  proof (cases "?s \<in> set ?ss")
    case True
    with dom obtain ip where "ips ?st ?s = Some ip"
      by auto
    with True dom nxt old show ?thesis
      by (simp add: run_rows_snoc read_row_ips read_row_nextIP first_seen_snoc insert_absorb)
  next
    case False
    with dom have none: "ips ?st ?s = None"
      by auto
    then have eq: "ips (read_row parse url row ?st) = (ips ?st)(?s \<mapsto> format_ip (nextIP ?st))"
      and nxt': "nextIP (read_row parse url row ?st) = nextIP ?st + 1"
      by (simp_all add: read_row_ips read_row_nextIP)
    have fs: "first_seen (map row_session (rows @ [row])) = ?fs @ [?s]"
      using False by (simp add: first_seen_snoc)
    have notin: "?s \<notin> set ?fs"
      using False by (simp add: set_first_seen)
    have c1: "dom (ips (read_row parse url row ?st)) = set (map row_session (rows @ [row]))"
      by (simp add: eq dom)
    have c2: "nextIP (read_row parse url row ?st) = of_nat (length (?fs @ [?s]))"
      by (simp add: nxt' nxt)
    have c3: "ips (read_row parse url row ?st) ((?fs @ [?s]) ! k) = Some (format_ip (of_nat k))"
      if "k < length (?fs @ [?s])" for k
    proof (cases "k < length ?fs")
      case True
      then have "?fs ! k \<in> set ?fs"
        by simp
      with notin have "?fs ! k \<noteq> ?s"
        by auto
      with True old [OF True] show ?thesis
        by (simp add: eq nth_append)
    next
      case False
      with that have "k = length ?fs"
        by simp
      then show ?thesis
        by (simp add: eq nxt)
    qed
    from c1 c2 c3 show ?thesis
      unfolding run_rows_snoc fs by blast
  qed
qed

lemma requests_inv:
  "(\<forall>r \<in> set rows.
      row_request url r (the (ips (run_rows parse url rows (rows_init start0)) (row_session r)))
        \<in> set (requests (run_rows parse url rows (rows_init start0))
                 (Unix (row_created parse r)))) \<and>
   (\<forall>b q. q \<in> set (requests (run_rows parse url rows (rows_init start0)) b) \<longrightarrow>
      (\<exists>r \<in> set rows.
          q = row_request url r
                (the (ips (run_rows parse url rows (rows_init start0)) (row_session r))) \<and>
          b = Unix (row_created parse r)))"
proof (induction rows rule: rev_induct)
  case Nil
  show ?case
    by (simp add: run_rows_def rows_init_def)
next
  case (snoc row rows)
  let ?st = "run_rows parse url rows (rows_init start0)"
  let ?st' = "read_row parse url row ?st"
  have dom: "dom (ips ?st) = set (map row_session rows)"
    using ips_inv [of parse url rows start0] by simp
  have keep: "ips ?st' (row_session r) = ips ?st (row_session r)" if "r \<in> set rows" for r
    using that dom by (intro read_row_keeps) auto
  from snoc have
    a: "\<And>r. r \<in> set rows \<Longrightarrow> row_request url r (the (ips ?st (row_session r)))
            \<in> set (requests ?st (Unix (row_created parse r)))"
    and b: "\<And>b q. q \<in> set (requests ?st b) \<Longrightarrow>
            \<exists>r \<in> set rows. q = row_request url r (the (ips ?st (row_session r))) \<and>
               b = Unix (row_created parse r)"
    by blast+
  have A: "row_request url r (the (ips ?st' (row_session r)))
            \<in> set (requests ?st' (Unix (row_created parse r)))"
    if "r \<in> set (rows @ [row])" for r
  proof (cases "r \<in> set rows")
    case True
    from a [OF True] keep [OF True] show ?thesis
      by (auto simp add: read_row_requests)
  next
    case False
    with that have "r = row"
      by simp
    then show ?thesis
      by (simp add: read_row_requests)
  qed
  have B: "\<exists>r \<in> set (rows @ [row]). q = row_request url r (the (ips ?st' (row_session r))) \<and>
               c = Unix (row_created parse r)"
    if "q \<in> set (requests ?st' c)" for c q
  proof (cases "q \<in> set (requests ?st c)")
    case True
    from b [OF True] obtain r where "r \<in> set rows"
      "q = row_request url r (the (ips ?st (row_session r)))" "c = Unix (row_created parse r)"
      by blast
    with keep [of r] have "r \<in> set (rows @ [row]) \<and>
        q = row_request url r (the (ips ?st' (row_session r))) \<and>
        c = Unix (row_created parse r)"
      by simp
    then show ?thesis
      by blast
  next
    case False
    with that have "c = Unix (row_created parse row) \<and>
        q = row_request url row (the (ips ?st' (row_session row)))"
      by (auto simp: read_row_requests split: if_splits)
    then show ?thesis
      by auto
  qed
  from A B show ?case
    unfolding run_rows_snoc by blast
qed

subsection \<open>One address per session\<close>

lemma row_session_export_row: "row_session (export_row s) = s"
  by (simp add: row_session_def export_row_def)

lemma length_export_row: "length (export_row s) = 12"
  by (simp add: export_row_def)

lemma sessions_numbered_rows: "map row_session (numbered_rows n) = map digits [0..<n]"
  by (simp add: numbered_rows_def numbered_row_def row_session_export_row)

lemma distinct_numbered: "distinct (map digits [0..<n])"
  by (simp add: distinct_map inj_on_def) (blast dest: digits_inj)

lemma final_ip_numbered:
  assumes "k < n"
  shows "final_ip parse url (map Inr (numbered_rows n)) start0 (digits k) =
     Some (format_ip (of_nat k))"
proof -
  let ?rows = "numbered_rows n"
  have "\<forall>row \<in> set ?rows. length row = 12"
    by (auto simp: numbered_rows_def numbered_row_def length_export_row)
  then have run: "read_rows parse url (map Inr ?rows) (rows_init start0) =
      Inr (run_rows parse url ?rows (rows_init start0))"
    by (rule read_rows_run)
  have fs: "first_seen (map row_session ?rows) = map digits [0..<n]"
    by (simp add: sessions_numbered_rows first_seen_distinct distinct_numbered)
  from ips_inv [of parse url ?rows start0] assms
  have "ips (run_rows parse url ?rows (rows_init start0)) (map digits [0..<n] ! k) =
      Some (format_ip (of_nat k))"
    unfolding fs by simp
  with assms show ?thesis
    by (simp add: final_ip_def run)
qed

lemma format_ip_examples:
  "format_ip (of_nat 4294967296) = ''0.0.0.0''"
  "format_ip 0 = ''0.0.0.0''"
  "format_ip (of_nat 2147483648) = ''-128.0.0.0''"
  by (simp_all add: format_ip_def itoa_def go_rem_def digits.simps digit_char_def)

text \<open>
  C7 (as stated, refuted): \<open>nextIP\<close> is an \<open>int32\<close>. In a replay of 4294967297 rows
  with pairwise distinct sessions, the first session and the last one are both given
  0.0.0.0, and the session first seen after 2147483648 others is given "-128.0.0.0",
  which is neither above the addresses given before nor an address.
\<close>

theorem replay_ips_wrap_around:
  "final_ip no_parse example_site (map Inr (numbered_rows 4294967297)) zero_time (digits 0) =
     Some ''0.0.0.0'' \<and>
   final_ip no_parse example_site (map Inr (numbered_rows 4294967297)) zero_time
     (digits 4294967296) = Some ''0.0.0.0'' \<and>
   digits 0 \<noteq> digits 4294967296 \<and>
   final_ip no_parse example_site (map Inr (numbered_rows 4294967297)) zero_time
     (digits 2147483648) = Some ''-128.0.0.0''"
proof -
  have "digits 0 \<noteq> digits 4294967296"
    using digits_inj [of 0 4294967296] by auto
  moreover have "final_ip no_parse example_site (map Inr (numbered_rows 4294967297)) zero_time
     (digits 0) = Some ''0.0.0.0''"
    using final_ip_numbered [of 0 4294967297 no_parse example_site zero_time]
    by (simp add: format_ip_examples)
  moreover have "final_ip no_parse example_site (map Inr (numbered_rows 4294967297)) zero_time
     (digits 4294967296) = Some ''0.0.0.0''"
    using final_ip_numbered [of 4294967296 4294967297] format_ip_examples(1) by simp
  moreover have "final_ip no_parse example_site (map Inr (numbered_rows 4294967297)) zero_time
     (digits 2147483648) = Some ''-128.0.0.0''"
    using final_ip_numbered [of 2147483648 4294967297] format_ip_examples(3) by simp
  ultimately show ?thesis
    by blast
qed

text \<open>
  C7 (amended): in a replay run whose rows are read without error and hold at most
  2^31 distinct session identifiers, the map from session identifier to synthetic
  address is a stable injective function: its domain is the set of sessions seen; the
  request built for a row carries the address of the row's session, so two rows of one
  session carry the same address, and every request carries such an address; the
  session first seen after \<open>k\<close> others has the dotted quad of \<open>k\<close>, so addresses grow in
  first-seen order from 0.0.0.0; and distinct sessions have distinct addresses.
\<close>

theorem replay_session_ips:
  assumes "\<forall>row \<in> set rows. length row = 12"
    and "card (set (map row_session rows)) \<le> 2 ^ 31"
  shows "\<exists>st. read_rows parse url (map Inr rows) (rows_init start0) = Inr st \<and>
      dom (ips st) = set (map row_session rows) \<and>
      (\<forall>row \<in> set rows. row_request url row (the (ips st (row_session row)))
          \<in> set (requests st (Unix (row_created parse row)))) \<and>
      (\<forall>b. \<forall>q \<in> set (requests st b).
          \<exists>row \<in> set rows. q = row_request url row (the (ips st (row_session row)))) \<and>
      (\<forall>k < length (first_seen (map row_session rows)).
          ips st (first_seen (map row_session rows) ! k) = Some (dotted_quad k)) \<and>
      inj_on (ips st) (set (map row_session rows))"
proof -
  let ?st = "run_rows parse url rows (rows_init start0)"
  let ?ss = "map row_session rows"
  let ?fs = "first_seen ?ss"
  have run: "read_rows parse url (map Inr rows) (rows_init start0) = Inr ?st"
    by (rule read_rows_run [OF assms(1)])
  note inv = ips_inv [of parse url rows start0]
  from inv have dom: "dom (ips ?st) = set ?ss"
    by blast
  have small: "k < 2 ^ 31" if "k < length ?fs" for k
    using that assms(2) by (simp add: length_first_seen)
  have quad: "ips ?st (?fs ! k) = Some (dotted_quad k)" if "k < length ?fs" for k
    using inv that format_ip_of_nat [OF small [OF that]] by simp
  have inj: "inj_on (ips ?st) (set ?ss)"
  proof (rule inj_onI)
    fix s t
    assume "s \<in> set ?ss" and "t \<in> set ?ss" and eq: "ips ?st s = ips ?st t"
    then obtain j k where j: "j < length ?fs" "s = ?fs ! j" and k: "k < length ?fs" "t = ?fs ! k"
      unfolding set_first_seen [of ?ss, symmetric] in_set_conv_nth by metis
    from eq quad [OF j(1)] quad [OF k(1)] j(2) k(2) have "dotted_quad j = dotted_quad k"
      by simp
    then have "j = k"
      by (rule dotted_quad_inj)
    with j(2) k(2) show "s = t"
      by simp
  qed
  from requests_inv [of rows url parse start0]
  have r1: "\<forall>row \<in> set rows. row_request url row (the (ips ?st (row_session row)))
          \<in> set (requests ?st (Unix (row_created parse row)))"
    and r2: "\<forall>b. \<forall>q \<in> set (requests ?st b).
          \<exists>row \<in> set rows. q = row_request url row (the (ips ?st (row_session row)))"
    by blast+
  from run dom r1 r2 quad inj show ?thesis
    by blast
qed


lemma dotted_quad_examples:
  "dotted_quad 0 = ''0.0.0.0''"
  "dotted_quad 1 = ''0.0.0.1''"
  by (simp_all add: dotted_quad_def digits.simps digit_char_def)

lemma three_rows_sessions: "map row_session three_rows = [''a'', ''b'', ''a'']"
  by (simp add: three_rows_def row_session_export_row)

theorem replay_session_ips_witness:
  "map length three_rows = [12, 12, 12] \<and>
   card (set (map row_session three_rows)) \<le> 2 ^ 31 \<and>
   (\<exists>st. read_rows no_parse example_site (map Inr three_rows) (rows_init zero_time) = Inr st \<and>
      dom (ips st) = {''a'', ''b''} \<and>
      ips st ''a'' = Some ''0.0.0.0'' \<and> ips st ''b'' = Some ''0.0.0.1'' \<and>
      row_request example_site (export_row ''a'') ''0.0.0.0''
        \<in> set (requests st (Unix (row_created no_parse (export_row ''a'')))))"
proof -
  have h1: "\<forall>row \<in> set three_rows. length row = 12"
    by (simp add: three_rows_def length_export_row)
  have "card (set (map row_session three_rows)) \<le> length (map row_session three_rows)"
    by (rule card_length)
  then have h2: "card (set (map row_session three_rows)) \<le> 2 ^ 31"
    by (simp add: three_rows_def)
  have fs: "first_seen (map row_session three_rows) = [''a'', ''b'']"
    by (simp add: three_rows_sessions first_seen_def)
  from replay_session_ips [OF h1 h2, of no_parse example_site zero_time]
  obtain st where st: "read_rows no_parse example_site (map Inr three_rows)
        (rows_init zero_time) = Inr st"
    and dom: "dom (ips st) = set (map row_session three_rows)"
    and req: "\<forall>row \<in> set three_rows.
        row_request example_site row (the (ips st (row_session row)))
          \<in> set (requests st (Unix (row_created no_parse row)))"
    and quad: "\<forall>k < length (first_seen (map row_session three_rows)).
        ips st (first_seen (map row_session three_rows) ! k) = Some (dotted_quad k)"
    by blast
  from quad [unfolded fs] have a: "ips st ''a'' = Some ''0.0.0.0''"
    using dotted_quad_examples(1) by force
  from quad [unfolded fs] have b: "ips st ''b'' = Some ''0.0.0.1''"
    using dotted_quad_examples(2) by force
  from req have "row_request example_site (export_row ''a'')
      (the (ips st (row_session (export_row ''a''))))
        \<in> set (requests st (Unix (row_created no_parse (export_row ''a''))))"
    by (simp add: three_rows_def)
  with a have r: "row_request example_site (export_row ''a'') ''0.0.0.0''
        \<in> set (requests st (Unix (row_created no_parse (export_row ''a''))))"
    by (simp add: row_session_export_row)
  from dom have d: "dom (ips st) = {''a'', ''b''}"
    by (auto simp: three_rows_sessions)
  have h0: "map length three_rows = [12, 12, 12]"
    by (simp add: three_rows_def length_export_row)
  from h0 h2 st d a b r show ?thesis
    by blast
qed

section \<open>Properties of the export API\<close>

lemma Base_examples:
  "Base ''/tmp/goatcounter-export-test-20200618T14:42:00Z-0.csv.gz'' =
     ''goatcounter-export-test-20200618T14:42:00Z-0.csv.gz''"
  "Base ''/tmp/dir/'' = ''dir''"
  "Base ''///'' = ''/''"
  "Base ''file'' = ''file''"
  by (simp_all add: Base_def)

text \<open>
  C5 (as stated, refuted): an export that is still running (no hash, no size, no error)
  whose output file exists, half written, is served with status 200: the handler does
  not require the done state.
\<close>

theorem exportDownload_serves_running_export:
  "unfinished running_export \<and> \<not> export_done running_export \<and>
   exportDownload parse_id find_running half_written attachment None ''1'' =
     Inr (Stream
       [(''Content-Disposition'',
         ''attachment; filename=goatcounter-export-test-20200618T14:42:00Z-0.csv.gz''),
        (''Content-Type'', ''application/gzip'')] ''partial'')"
  by (simp add: exportDownload_def parse_id_def find_running_def half_written_def
      attachment_def running_export_def unfinished_def export_done_def export_failed_def
      Base_def)

text \<open>
  C5 (amended): for a download request with a known export id, the handler does not
  consult the state of the export; the response depends on the stored path alone. When
  the file at the path can be opened, its bytes are served with Content-Type
  application/gzip and a content disposition whose file name is the base name of the
  stored path; when the file does not exist, the response is the redirect with the
  flash message, and it differs from the response for an unknown id, which is the error
  of \<open>export.ByID\<close>.
\<close>

theorem exportDownload_known_id:
  assumes "Integer idParam = Inr i" and "ByID i = Inr e"
  shows "exportDownload Integer ByID os_Open SetContentDisposition None idParam =
      (case os_Open (ExportPath e) of
         NotExist \<Rightarrow>
           Inr (SeeOther ''It looks like there is no export yet.'' ''/settings#tab-export'')
       | OpenError err \<Rightarrow> Inl err
       | Opened content \<Rightarrow>
          (case SetContentDisposition ''attachment'' (Base (ExportPath e)) of
             Inl err \<Rightarrow> Inl err
           | Inr disposition \<Rightarrow>
              Inr (Stream [(''Content-Disposition'', disposition),
                           (''Content-Type'', ''application/gzip'')] content))) \<and>
    (\<forall>p j err. Integer p = Inr j \<and> ByID j = Inl err \<longrightarrow>
       exportDownload Integer ByID os_Open SetContentDisposition None p = Inl err \<and>
       exportDownload Integer ByID os_Open SetContentDisposition None p \<noteq>
         Inr (SeeOther ''It looks like there is no export yet.'' ''/settings#tab-export''))"
  using assms by (simp add: exportDownload_def)

theorem exportDownload_known_id_witness:
  "parse_id ''1'' = Inr 1 \<and> find_running 1 = Inr running_export \<and>
   exportDownload parse_id find_running nothing_there attachment None ''1'' =
     Inr (SeeOther ''It looks like there is no export yet.'' ''/settings#tab-export'') \<and>
   parse_id ''2'' = Inr 2 \<and> find_running 2 = Inl ErrNoRows \<and>
   exportDownload parse_id find_running nothing_there attachment None ''2'' = Inl ErrNoRows"
proof -
  have h1: "parse_id ''1'' = Inr 1" and h2: "find_running 1 = Inr running_export"
    and h3: "parse_id ''2'' = Inr 2" and h4: "find_running 2 = Inl ErrNoRows"
    by (simp_all add: parse_id_def find_running_def)
  note t = exportDownload_known_id [of parse_id "''1''" 1 find_running running_export
      nothing_there attachment, OF h1 h2]
  from t have "exportDownload parse_id find_running nothing_there attachment None ''1'' =
      Inr (SeeOther ''It looks like there is no export yet.'' ''/settings#tab-export'')"
    by (simp add: nothing_there_def)
  moreover from t h3 h4
  have "exportDownload parse_id find_running nothing_there attachment None ''2'' =
      Inl ErrNoRows"
    by blast
  ultimately show ?thesis
    using h1 h2 h3 h4 by blast
qed

subsection \<open>One running export per site\<close>

lemma unfinished_finish: "unfinished e \<Longrightarrow> \<not> unfinished (finish res t e)"
  by (cases res) (simp_all add: unfinished_def export_done_def export_failed_def finish_def)

lemma SiteID_finish: "SiteID (finish res t e) = SiteID e"
  by (cases res) (simp_all add: finish_def)

lemma filter_map_le:
  assumes "\<And>x. P (f x) \<Longrightarrow> Q x"
  shows "length (filter P (map f xs)) \<le> length (filter Q xs)"
  using assms by (induction xs) auto

lemma filter_filter_le: "length (filter P (filter Q xs)) \<le> length (filter P xs)"
  by (induction xs) auto

lemma Create_Reject_existing:
  assumes "\<exists>e \<in> set tbl. SiteID e = site \<and> unfinished e"
  shows "Create Reject mkpath site t startFrom tbl =
     Inl (if startFrom < 0 then Guru 400 ''start_from_hit_id: must be 0 or larger''
          else Guru 409 ''an export of this site is still running'')"
proof -
  from assms have "find (\<lambda>e. SiteID e = site \<and> unfinished e) tbl \<noteq> None"
    by (auto simp: find_None_iff)
  then obtain e where "find (\<lambda>e. SiteID e = site \<and> unfinished e) tbl = Some e"
    by blast
  then show ?thesis
    by (simp add: Create_def)
qed

lemma Create_new:
  assumes "0 \<le> startFrom" and "\<not> (\<exists>e \<in> set tbl. SiteID e = site \<and> unfinished e)"
  shows "\<exists>e. Create policy mkpath site t startFrom tbl = Inr (e, tbl @ [e]) \<and>
             SiteID e = site \<and> unfinished e"
proof -
  from assms(2) have "find (\<lambda>e. SiteID e = site \<and> unfinished e) tbl = None"
    by (simp add: find_None_iff)
  with assms(1) show ?thesis
    by (simp add: Create_def Let_def unfinished_def export_done_def export_failed_def)
qed

lemma open_exports_pos:
  "0 < open_exports site w \<longleftrightarrow> (\<exists>e \<in> set (exports w). SiteID e = site \<and> unfinished e)"
  by (auto simp: open_exports_def filter_empty_conv)

lemma export_Reject_existing:
  assumes "0 < open_exports site w"
  shows "export Reject mkpath site t None (Inr req) w =
     (Inl (if start_from_hit_id req < 0 then Guru 400 ''start_from_hit_id: must be 0 or larger''
           else Guru 409 ''an export of this site is still running''), w)"
  using assms by (simp add: export_def open_exports_pos Create_Reject_existing)

lemma step_Request_Reject:
  assumes inv: "single_flight w"
  shows "single_flight (step Reject mkpath w (Request site t startFrom))"
proof (cases "startFrom < 0 \<or> 0 < open_exports site w")
  case True
  have "\<exists>err. Create Reject mkpath site t startFrom (exports w) = Inl err"
  proof (cases "startFrom < 0")
    case True
    then show ?thesis
      by (simp add: Create_def)
  next
    case False
    with \<open>startFrom < 0 \<or> 0 < open_exports site w\<close>
    have "\<exists>e \<in> set (exports w). SiteID e = site \<and> unfinished e"
      by (simp add: open_exports_pos)
    from Create_Reject_existing [OF this] show ?thesis
      by blast
  qed
  then have "step Reject mkpath w (Request site t startFrom) = w"
    by (auto simp add: step_def export_def)
  with inv show ?thesis
    by simp
next
  case False
  then have none: "\<not> (\<exists>e \<in> set (exports w). SiteID e = site \<and> unfinished e)"
    and nonneg: "0 \<le> startFrom"
    by (simp_all add: open_exports_pos)
  from Create_new [OF nonneg none] obtain e where
    e: "Create Reject mkpath site t startFrom (exports w) = Inr (e, exports w @ [e])"
       "SiteID e = site" "unfinished e"
    by blast
  let ?w' = "\<lparr>exports = exports w @ [e], writers = writers w @ [e]\<rparr>"
  have w': "step Reject mkpath w (Request site t startFrom) = ?w'"
    by (simp add: step_def export_def e(1))
  from inv have wr: "\<forall>x \<in> set (writers w). x \<in> set (exports w) \<and> unfinished x"
    by (simp add: single_flight_def)
  have o0: "open_exports site w = 0"
    using none by (simp add: open_exports_def filter_empty_conv)
  have w0: "site_writers site w = 0"
    using none wr by (auto simp: site_writers_def filter_empty_conv)
  have "open_exports s ?w' \<le> 1" for s
  proof (cases "s = site")
    case True
    with o0 e show ?thesis
      by (simp add: open_exports_def)
  next
    case False
    with inv e show ?thesis
      by (simp add: open_exports_def single_flight_def)
  qed
  moreover have "site_writers s ?w' \<le> 1" for s
  proof (cases "s = site")
    case True
    with w0 e show ?thesis
      by (simp add: site_writers_def)
  next
    case False
    with inv e show ?thesis
      by (simp add: site_writers_def single_flight_def)
  qed
  moreover have "\<forall>x \<in> set (writers ?w'). x \<in> set (exports ?w') \<and> unfinished x"
    using wr e(3) by auto
  ultimately show ?thesis
    unfolding w' single_flight_def by blast
qed

lemma step_Finished:
  assumes inv: "single_flight w"
  shows "single_flight (step policy mkpath w (Finished i res t))"
proof (cases "\<exists>e \<in> set (writers w). ID e = i")
  case False
  then have "step policy mkpath w (Finished i res t) = w"
    by (simp add: step_def)
  with inv show ?thesis
    by simp
next
  case True
  let ?f = "\<lambda>e. if ID e = i \<and> unfinished e then finish res t e else e"
  let ?w' = "\<lparr>exports = map ?f (exports w), writers = filter (\<lambda>e. ID e \<noteq> i) (writers w)\<rparr>"
  from True have w': "step policy mkpath w (Finished i res t) = ?w'"
    by (simp add: step_def)
  have keep: "SiteID (?f e) = s \<and> unfinished (?f e) \<Longrightarrow> SiteID e = s \<and> unfinished e" for e s
    by (auto simp: unfinished_finish SiteID_finish split: if_splits)
  have ex': "exports ?w' = map ?f (exports w)"
    and wr': "writers ?w' = filter (\<lambda>e. ID e \<noteq> i) (writers w)"
    by simp_all
  have "length (filter (\<lambda>e. SiteID e = s \<and> unfinished e) (map ?f (exports w)))
      \<le> length (filter (\<lambda>e. SiteID e = s \<and> unfinished e) (exports w))" for s
    by (rule filter_map_le) (rule keep)
  then have "open_exports s ?w' \<le> open_exports s w" for s
    unfolding open_exports_def ex' .
  moreover from inv have "open_exports s w \<le> 1" for s
    by (simp add: single_flight_def)
  ultimately have o: "open_exports s ?w' \<le> 1" for s
    by (rule le_trans)
  have "site_writers s ?w' \<le> site_writers s w" for s
    unfolding site_writers_def wr' by (rule filter_filter_le)
  moreover from inv have "site_writers s w \<le> 1" for s
    by (simp add: single_flight_def)
  ultimately have r: "site_writers s ?w' \<le> 1" for s
    by (rule le_trans)
  have m: "x \<in> set (exports ?w') \<and> unfinished x" if "x \<in> set (writers ?w')" for x
  proof -
    from that have x: "x \<in> set (writers w)" "ID x \<noteq> i"
      by simp_all
    with inv have xs: "x \<in> set (exports w)" and u: "unfinished x"
      by (simp_all add: single_flight_def)
    from xs have "?f x \<in> set (map ?f (exports w))"
      by (simp only: set_map) (rule imageI)
    with x(2) have "x \<in> set (map ?f (exports w))"
      by simp
    with u show ?thesis
      unfolding ex' by simp
  qed
  from o r m show ?thesis
    unfolding w' single_flight_def by blast
qed

lemma reachable_single_flight: "single_flight (reachable Reject mkpath evs)"
proof (induction evs rule: rev_induct)
  case Nil
  show ?case
    by (simp add: reachable_def no_exports_def single_flight_def open_exports_def
        site_writers_def)
next
  case (snoc ev evs)
  have "reachable Reject mkpath (evs @ [ev]) = step Reject mkpath (reachable Reject mkpath evs) ev"
    by (simp add: reachable_def)
  with snoc show ?case
    by (cases ev) (simp_all add: step_Request_Reject step_Finished)
qed

lemma first_request:
  "reachable policy mkpath [Request 1 t 0] =
     \<lparr>exports = [\<lparr>ID = 1, SiteID = 1, StartFromHitID = 0, LastHitID = None,
                   ExportPath = mkpath 1 t 0, ExportCreatedAt = t, FinishedAt = None,
                   NumRows = None, ExportSize = None, Hash = None, ExportError = None\<rparr>],
      writers = [\<lparr>ID = 1, SiteID = 1, StartFromHitID = 0, LastHitID = None,
                   ExportPath = mkpath 1 t 0, ExportCreatedAt = t, FinishedAt = None,
                   NumRows = None, ExportSize = None, Hash = None, ExportError = None\<rparr>]\<rparr>"
  by (simp add: reachable_def no_exports_def step_def export_def Create_def Let_def)

lemma first_request_open: "open_exports 1 (reachable policy mkpath [Request 1 t 0]) = 1"
  by (simp add: first_request open_exports_def unfinished_def export_done_def
      export_failed_def)

text \<open>
  Were \<open>export.Create\<close> to return the existing export of the site, \<open>api.export\<close>, which
  starts a background task after every successful \<open>Create\<close>, would answer 202 with that
  export and start a second writer for it. The handler fits the rejecting \<open>Create\<close> only.
\<close>

lemma export_Join_starts_second_writer:
  "fst (export Join mkpath 1 t' None (Inr \<lparr>start_from_hit_id = 0\<rparr>)
          (reachable Join mkpath [Request 1 t 0])) =
     Inr (JSON 202 (ExportBody (hd (exports (reachable Join mkpath [Request 1 t 0]))))) \<and>
   site_writers 1 (snd (export Join mkpath 1 t' None (Inr \<lparr>start_from_hit_id = 0\<rparr>)
          (reachable Join mkpath [Request 1 t 0]))) = 2"
  by (simp add: first_request export_def Create_def site_writers_def unfinished_def
      export_done_def export_failed_def)

text \<open>
  C4: with \<open>export.Create\<close> rejecting a request while the site has a non-terminal export,
  in every state reached by create requests and finishing background tasks each site
  has at most one non-terminal export and at most one running writer; a create request
  received while the site has a non-terminal export is answered with the error of
  \<open>Create\<close> (the conflict, or the validation error for a negative cursor) and changes
  nothing: no row is inserted and no background writer is started.
\<close>

theorem export_single_flight:
  "(\<forall>site. open_exports site (reachable Reject mkpath evs) \<le> 1 \<and>
           site_writers site (reachable Reject mkpath evs) \<le> 1) \<and>
   (\<forall>site t req. 0 < open_exports site (reachable Reject mkpath evs) \<longrightarrow>
      export Reject mkpath site t None (Inr req) (reachable Reject mkpath evs) =
        (Inl (if start_from_hit_id req < 0
              then Guru 400 ''start_from_hit_id: must be 0 or larger''
              else Guru 409 ''an export of this site is still running''),
         reachable Reject mkpath evs))"
proof -
  have "single_flight (reachable Reject mkpath evs)"
    by (rule reachable_single_flight)
  then have "\<forall>site. open_exports site (reachable Reject mkpath evs) \<le> 1 \<and>
           site_writers site (reachable Reject mkpath evs) \<le> 1"
    by (simp add: single_flight_def)
  then show ?thesis
    using export_Reject_existing by blast
qed

theorem export_single_flight_witness:
  "0 < open_exports 1 (reachable Reject example_path [Request 1 server_now 0]) \<and>
   export Reject example_path 1 server_now None (Inr \<lparr>start_from_hit_id = 0\<rparr>)
       (reachable Reject example_path [Request 1 server_now 0]) =
     (Inl (Guru 409 ''an export of this site is still running''),
      reachable Reject example_path [Request 1 server_now 0]) \<and>
   site_writers 1 (reachable Reject example_path [Request 1 server_now 0]) \<le> 1"
proof -
  have h: "0 < open_exports 1 (reachable Reject example_path [Request 1 server_now 0])"
    by (simp add: first_request_open)
  from export_single_flight [of example_path "[Request 1 server_now 0]"] h
  show ?thesis
    by force
qed

end
